theory Spec2Isabelle
  imports Complex_Main
begin

section \<open>Gomoku (games/gomoku.h, games/gomoku.cc)\<close>

text \<open>
  The constants of gomoku.h. They are non-negative C++ ints that only serve as loop bounds
  and array sizes, so they are naturals here.
\<close>

definition kNumPlayers :: nat where
  "kNumPlayers = 2"

definition kNumRows :: nat where
  "kNumRows = 15"

definition kNumCols :: nat where
  "kNumCols = 15"

definition kNumPoints :: nat where
  "kNumPoints = kNumRows * kNumCols"

datatype PointState = kEmpty | kBlack | kWhite

text \<open>
  Ways a call can end other than by returning: \<open>SpielFatalError\<close> and a failed
  \<open>SPIEL_CHECK_*\<close> abort the process; an array or vector access outside its bounds is
  undefined behaviour in C++ and is reported as \<open>OutOfBounds\<close>.
\<close>

datatype error = FatalError | CheckFailed | OutOfBounds

type_synonym Player = int
type_synonym Action = int

text \<open>
  Modelled from the spec: the constant \<open>kTerminalPlayerId\<close> of spiel.h, which is not among
  the sources. Section 6 reserves a TerminalPlayer sentinel that is distinguished from
  every player; what matters below is that it is neither 0 nor 1.
\<close>

definition kTerminalPlayerId :: Player where
  "kTerminalPlayerId = - 4"

text \<open>
  The fields are those of the class, written without the trailing underscore of the
  source. \<open>board\<close> is a \<open>std::array<PointState, kNumPoints>\<close>: a list whose length is
  fixed by the type, stated as \<open>board_ok\<close>. \<open>history\<close> is the action history kept by the
  base class State.
\<close>

record GomokuState =
  board :: "PointState list"
  current_player :: Player
  history :: "Action list"

definition board_ok :: "GomokuState \<Rightarrow> bool" where
  "board_ok s = (length (board s) = kNumPoints)"

definition PlayerToState :: "Player \<Rightarrow> error + PointState" where
  "PlayerToState player =
     (if player = 0 then Inr kBlack
      else if player = 1 then Inr kWhite
      else Inl FatalError)"

definition BoardAt :: "GomokuState \<Rightarrow> nat \<Rightarrow> nat \<Rightarrow> PointState" where
  "BoardAt s row column = board s ! (row * kNumCols + column)"

text \<open>
  The loop of \<open>HasFiveInner\<close>: for \<open>i\<close> from 0 to 4, row \<open>r_start + i\<close> and column
  \<open>c_start + i\<close> of the 5 by 5 window are tested, and the first complete one ends the search.
\<close>

function HasFiveInner_loop :: "GomokuState \<Rightarrow> nat \<Rightarrow> nat \<Rightarrow> PointState \<Rightarrow> nat \<Rightarrow> bool" where
  "HasFiveInner_loop st r_start c_start s i =
     (if i < 5 then
        (if BoardAt st (r_start + i) c_start = s \<and>
            BoardAt st (r_start + i) (c_start + 1) = s \<and>
            BoardAt st (r_start + i) (c_start + 2) = s \<and>
            BoardAt st (r_start + i) (c_start + 3) = s \<and>
            BoardAt st (r_start + i) (c_start + 4) = s
         then True
         else if BoardAt st r_start (c_start + i) = s \<and>
                 BoardAt st (r_start + 1) (c_start + i) = s \<and>
                 BoardAt st (r_start + 2) (c_start + i) = s \<and>
                 BoardAt st (r_start + 3) (c_start + i) = s \<and>
                 BoardAt st (r_start + 4) (c_start + i) = s
         then True
         else HasFiveInner_loop st r_start c_start s (Suc i))
      else False)"
  by pat_completeness auto
termination
  by (relation "measure (\<lambda>(st, r_start, c_start, s, i). 5 - i)") auto

declare HasFiveInner_loop.simps [simp del]

definition HasFiveInner :: "GomokuState \<Rightarrow> nat \<Rightarrow> nat \<Rightarrow> PointState \<Rightarrow> bool" where
  "HasFiveInner st r_start c_start s =
     (if HasFiveInner_loop st r_start c_start s 0 then True
      else if BoardAt st r_start c_start = s \<and>
              BoardAt st (r_start + 1) (c_start + 1) = s \<and>
              BoardAt st (r_start + 2) (c_start + 2) = s \<and>
              BoardAt st (r_start + 3) (c_start + 3) = s \<and>
              BoardAt st (r_start + 4) (c_start + 4) = s
      then True
      else if BoardAt st (r_start + 4) c_start = s \<and>
              BoardAt st (r_start + 3) (c_start + 1) = s \<and>
              BoardAt st (r_start + 2) (c_start + 2) = s \<and>
              BoardAt st (r_start + 1) (c_start + 3) = s \<and>
              BoardAt st r_start (c_start + 4) = s
      then True
      else False)"

text \<open>
  The two nested loops of \<open>HasFive\<close>: \<open>r\<close> runs over \<open>0 .. kNumRows - 5\<close> and, for each
  \<open>r\<close>, \<open>c\<close> over \<open>0 .. kNumCols - 5\<close>, both ends included; the first window that has
  five ends the search.
\<close>

function HasFive_columns :: "GomokuState \<Rightarrow> PointState \<Rightarrow> nat \<Rightarrow> nat \<Rightarrow> bool" where
  "HasFive_columns st s r c =
     (if c \<le> kNumCols - 5
      then (if HasFiveInner st r c s then True else HasFive_columns st s r (Suc c))
      else False)"
  by pat_completeness auto
termination
  by (relation "measure (\<lambda>(st, s, r, c). Suc (kNumCols - 5) - c)") auto

declare HasFive_columns.simps [simp del]

function HasFive_rows :: "GomokuState \<Rightarrow> PointState \<Rightarrow> nat \<Rightarrow> bool" where
  "HasFive_rows st s r =
     (if r \<le> kNumRows - 5
      then (if HasFive_columns st s r 0 then True else HasFive_rows st s (Suc r))
      else False)"
  by pat_completeness auto
termination
  by (relation "measure (\<lambda>(st, s, r). Suc (kNumRows - 5) - r)") auto

declare HasFive_rows.simps [simp del]

definition HasFive :: "GomokuState \<Rightarrow> Player \<Rightarrow> error + bool" where
  "HasFive st player =
     (case PlayerToState player of
        Inl e \<Rightarrow> Inl e
      | Inr s \<Rightarrow> Inr (HasFive_rows st s 0))"

function IsFull_loop :: "GomokuState \<Rightarrow> nat \<Rightarrow> bool" where
  "IsFull_loop st point =
     (if point < kNumPoints
      then (if board st ! point = kEmpty then False else IsFull_loop st (Suc point))
      else True)"
  by pat_completeness auto
termination
  by (relation "measure (\<lambda>(st, point). kNumPoints - point)") auto

declare IsFull_loop.simps [simp del]

definition IsFull :: "GomokuState \<Rightarrow> bool" where
  "IsFull st = IsFull_loop st 0"

definition IsTerminal :: "GomokuState \<Rightarrow> error + bool" where
  "IsTerminal st =
     (case HasFive st 0 of
        Inl e \<Rightarrow> Inl e
      | Inr b0 \<Rightarrow>
          if b0 then Inr True
          else (case HasFive st 1 of
                  Inl e \<Rightarrow> Inl e
                | Inr b1 \<Rightarrow> if b1 then Inr True else Inr (IsFull st)))"

definition Returns :: "GomokuState \<Rightarrow> error + real list" where
  "Returns st =
     (case HasFive st 0 of
        Inl e \<Rightarrow> Inl e
      | Inr b0 \<Rightarrow>
          if b0 then Inr [1, - 1]
          else (case HasFive st 1 of
                  Inl e \<Rightarrow> Inl e
                | Inr b1 \<Rightarrow> if b1 then Inr [- 1, 1] else Inr [0, 0]))"

definition UtilitySum :: real where
  "UtilitySum = 0"

definition CurrentPlayer :: "GomokuState \<Rightarrow> error + Player" where
  "CurrentPlayer st =
     (case IsTerminal st of
        Inl e \<Rightarrow> Inl e
      | Inr t \<Rightarrow> Inr (if t then kTerminalPlayerId else current_player st))"

text \<open>
  The loop of \<open>LegalActions\<close>: \<open>point\<close> runs up to \<open>kNumPoints\<close> and every empty point is
  pushed onto the back of \<open>moves\<close>.
\<close>

function LegalActions_loop :: "GomokuState \<Rightarrow> nat \<Rightarrow> Action list \<Rightarrow> Action list" where
  "LegalActions_loop st point moves =
     (if point < kNumPoints
      then LegalActions_loop st (Suc point)
             (if board st ! point = kEmpty then moves @ [int point] else moves)
      else moves)"
  by pat_completeness auto
termination
  by (relation "measure (\<lambda>(st, point, moves). kNumPoints - point)") auto

declare LegalActions_loop.simps [simp del]

definition LegalActions :: "GomokuState \<Rightarrow> error + Action list" where
  "LegalActions st =
     (case IsTerminal st of
        Inl e \<Rightarrow> Inl e
      | Inr t \<Rightarrow> if t then Inr [] else Inr (LegalActions_loop st 0 []))"

definition DoApplyAction :: "Action \<Rightarrow> GomokuState \<Rightarrow> error + GomokuState" where
  "DoApplyAction move st =
     (if move < 0 \<or> int (length (board st)) \<le> move then Inl OutOfBounds
      else if board st ! nat move \<noteq> kEmpty then Inl CheckFailed
      else (case CurrentPlayer st of
              Inl e \<Rightarrow> Inl e
            | Inr p \<Rightarrow>
                (case PlayerToState p of
                   Inl e \<Rightarrow> Inl e
                 | Inr ps \<Rightarrow>
                     Inr (st\<lparr>board := (board st)[nat move := ps],
                             current_player := 1 - current_player st\<rparr>))))"

text \<open>
  Modelled from the spec: \<open>State::ApplyAction\<close> of spiel.h, which is not among the sources.
  The public way to apply a move (the \<open>Apply(history, action)\<close> of the interface) calls
  \<open>DoApplyAction\<close> and then records the action at the end of the history; \<open>UndoAction\<close>
  below removes that last entry again.
\<close>

definition ApplyAction :: "Action \<Rightarrow> GomokuState \<Rightarrow> error + GomokuState" where
  "ApplyAction move st =
     (case DoApplyAction move st of
        Inl e \<Rightarrow> Inl e
      | Inr st' \<Rightarrow> Inr (st'\<lparr>history := history st' @ [move]\<rparr>))"

text \<open>\<open>pop_back\<close> on an empty vector is undefined behaviour, like a write outside the board.\<close>

definition UndoAction :: "Player \<Rightarrow> Action \<Rightarrow> GomokuState \<Rightarrow> error + GomokuState" where
  "UndoAction player move st =
     (if move < 0 \<or> int (length (board st)) \<le> move then Inl OutOfBounds
      else if history st = [] then Inl OutOfBounds
      else Inr (st\<lparr>board := (board st)[nat move := kEmpty],
                   current_player := player,
                   history := butlast (history st)\<rparr>))"

text \<open>The constructor: an empty board, player zero to move, no history.\<close>

definition NewInitialState :: GomokuState where
  "NewInitialState =
     \<lparr>board = replicate kNumPoints kEmpty, current_player = 0, history = []\<rparr>"

subsection \<open>What the rules of the game say\<close>

text \<open>
  The reading of "five consecutive stones in a row, column or diagonal" that
  \<open>HasFive\<close> is compared with: five points in a straight line, all inside the board, all
  in state \<open>s\<close>. \<open>r\<close> and \<open>c\<close> are the row and column of the line's first point; an
  anti-diagonal starts at the bottom of its 5 by 5 square and climbs.
\<close>

definition row_five :: "GomokuState \<Rightarrow> PointState \<Rightarrow> nat \<Rightarrow> nat \<Rightarrow> bool" where
  "row_five st s r c = (\<forall>k\<in>set [0..<5]. BoardAt st r (c + k) = s)"

definition column_five :: "GomokuState \<Rightarrow> PointState \<Rightarrow> nat \<Rightarrow> nat \<Rightarrow> bool" where
  "column_five st s r c = (\<forall>k\<in>set [0..<5]. BoardAt st (r + k) c = s)"

definition diagonal_five :: "GomokuState \<Rightarrow> PointState \<Rightarrow> nat \<Rightarrow> nat \<Rightarrow> bool" where
  "diagonal_five st s r c = (\<forall>k\<in>set [0..<5]. BoardAt st (r + k) (c + k) = s)"

definition antidiagonal_five :: "GomokuState \<Rightarrow> PointState \<Rightarrow> nat \<Rightarrow> nat \<Rightarrow> bool" where
  "antidiagonal_five st s r c = (\<forall>k\<in>set [0..<5]. BoardAt st (r + 4 - k) (c + k) = s)"

definition five_in_line :: "GomokuState \<Rightarrow> PointState \<Rightarrow> bool" where
  "five_in_line st s =
     ((\<exists>r\<in>set [0..<kNumRows]. \<exists>c\<in>set [0..<kNumCols - 4]. row_five st s r c) \<or>
      (\<exists>r\<in>set [0..<kNumRows - 4]. \<exists>c\<in>set [0..<kNumCols]. column_five st s r c) \<or>
      (\<exists>r\<in>set [0..<kNumRows - 4]. \<exists>c\<in>set [0..<kNumCols - 4].
          diagonal_five st s r c \<or> antidiagonal_five st s r c))"

definition all_occupied :: "GomokuState \<Rightarrow> bool" where
  "all_occupied st = (\<forall>point\<in>set [0..<kNumPoints]. board st ! point \<noteq> kEmpty)"

text \<open>
  The states the class can be in: the board has its \<open>kNumPoints\<close> cells and the player to
  move is 0 or 1. The constructor establishes this and \<open>ApplyAction\<close> keeps it.
\<close>

definition state_ok :: "GomokuState \<Rightarrow> bool" where
  "state_ok st = (board_ok st \<and> (current_player st = 0 \<or> current_player st = 1))"

text \<open>Two example states: black has filled the first five points of row 0,
  answered by four white stones in row 1; and white has five in row 1.\<close>

definition black_row_state :: GomokuState where
  "black_row_state =
     \<lparr>board = replicate 5 kBlack @ replicate 10 kEmpty @ replicate 4 kWhite
               @ replicate (kNumPoints - 19) kEmpty,
      current_player = 1, history = [0, 15, 1, 16, 2, 17, 3, 18, 4]\<rparr>"

definition white_row_state :: GomokuState where
  "white_row_state =
     \<lparr>board = replicate 4 kBlack @ replicate 11 kEmpty @ replicate 5 kWhite
               @ replicate 10 kEmpty @ [kBlack] @ replicate (kNumPoints - 31) kEmpty,
      current_player = 0, history = [0, 15, 1, 16, 2, 17, 3, 18, 30, 19]\<rparr>"

section \<open>Matrix games (matrix_game.h)\<close>

text \<open>
  A read of a \<open>std::vector\<close> at an \<open>int\<close> index; outside the bounds the C++ is undefined.
\<close>

definition at_index :: "'a list \<Rightarrow> int \<Rightarrow> error + 'a" where
  "at_index xs i = (if 0 \<le> i \<and> i < int (length xs) then Inr (xs ! nat i) else Inl OutOfBounds)"

record MatrixGame =
  row_action_names :: "string list"
  col_action_names :: "string list"
  row_utilities :: "real list"
  col_utilities :: "real list"

definition NumRows :: "MatrixGame \<Rightarrow> int" where
  "NumRows g = int (length (row_action_names g))"

definition NumCols :: "MatrixGame \<Rightarrow> int" where
  "NumCols g = int (length (col_action_names g))"

definition Index :: "MatrixGame \<Rightarrow> int \<Rightarrow> int \<Rightarrow> int" where
  "Index g row col = row * NumCols g + col"

definition RowUtility :: "MatrixGame \<Rightarrow> int \<Rightarrow> int \<Rightarrow> error + real" where
  "RowUtility g row col = at_index (row_utilities g) (Index g row col)"

definition ColUtility :: "MatrixGame \<Rightarrow> int \<Rightarrow> int \<Rightarrow> error + real" where
  "ColUtility g row col = at_index (col_utilities g) (Index g row col)"

record MatrixState =
  game :: MatrixGame
  joint_move :: "Action list"

definition MatrixState_IsTerminal :: "MatrixState \<Rightarrow> bool" where
  "MatrixState_IsTerminal ms = (joint_move ms \<noteq> [])"

definition MatrixState_Returns :: "MatrixState \<Rightarrow> error + real list" where
  "MatrixState_Returns ms =
     (if MatrixState_IsTerminal ms then
        (case at_index (joint_move ms) 0 of
           Inl e \<Rightarrow> Inl e
         | Inr m0 \<Rightarrow>
             (case at_index (joint_move ms) 1 of
                Inl e \<Rightarrow> Inl e
              | Inr m1 \<Rightarrow>
                  (case RowUtility (game ms) m0 m1 of
                     Inl e \<Rightarrow> Inl e
                   | Inr u0 \<Rightarrow>
                       (case ColUtility (game ms) m0 m1 of
                          Inl e \<Rightarrow> Inl e
                        | Inr u1 \<Rightarrow> Inr [u0, u1]))))
      else Inr [0, 0])"

definition DoApplyActions :: "Action list \<Rightarrow> MatrixState \<Rightarrow> error + MatrixState" where
  "DoApplyActions moves ms =
     (if length moves \<noteq> 2 then Inl CheckFailed
      else if \<not> 0 \<le> moves ! 0 then Inl CheckFailed
      else if \<not> moves ! 0 < NumRows (game ms) then Inl CheckFailed
      else if \<not> 0 \<le> moves ! 1 then Inl CheckFailed
      else if \<not> moves ! 1 < NumCols (game ms) then Inl CheckFailed
      else Inr (ms\<lparr>joint_move := moves\<rparr>))"

text \<open>An example: matching pennies before any move.\<close>

definition pennies_state :: MatrixState where
  "pennies_state =
     \<lparr>game = \<lparr>row_action_names = [''Heads'', ''Tails''],
               col_action_names = [''Heads'', ''Tails''],
               row_utilities = [1, - 1, - 1, 1], col_utilities = [- 1, 1, 1, - 1]\<rparr>,
      joint_move = []\<rparr>"

section \<open>The CFR engine\<close>

subsection \<open>Regret matching and the information-set table\<close>

text \<open>
  Modelled from the spec: algorithms/cfr.h and cfr.cc, the solver that cfr_test.cc drives,
  are not among the sources. Regret matching follows section 4.1 of the specification:
  with \<open>r+[i] = max(r[i], 0)\<close>, the result is \<open>r+[i] / sum(r+)\<close> when \<open>sum(r+) > 0\<close> and
  \<open>1/A\<close> otherwise. Regrets and probabilities are real numbers.
\<close>

definition RegretMatching :: "real list \<Rightarrow> real list" where
  "RegretMatching r =
     (let r_plus = map (\<lambda>x. max x 0) r;
          total = sum_list r_plus
      in if total > 0 then map (\<lambda>x. x / total) r_plus
         else replicate (length r) (1 / real (length r)))"

text \<open>
  Modelled from the spec: the InfostateNode of section 3, with its two accumulators, and
  the information-set table that maps a key to its node.
\<close>

record InfostateNode =
  cumulative_regret :: "real list"
  cumulative_strategy :: "real list"

type_synonym InfostateTable = "string \<Rightarrow> InfostateNode option"

text \<open>
  Modelled from the spec: the normalisation behind \<open>AveragePolicy\<close> (section 4.4): the
  cumulative strategy divided by its sum, and the uniform distribution when the sum is 0.
\<close>

definition NormalizeStrategy :: "real list \<Rightarrow> real list" where
  "NormalizeStrategy cs =
     (let total = sum_list cs
      in if total = 0 then replicate (length cs) (1 / real (length cs))
         else map (\<lambda>x. x / total) cs)"

text \<open>
  Modelled from the spec: a Policy (sections 3 and 6) maps an information-set key to the
  probabilities of that set's legal actions, in the order the game enumerates them.
  \<open>ActionProbabilities\<close> "fails (or returns uniform) if the key was never visited"; as
  sections 4.4 and 7 make a policy valid before any iteration, it returns the uniform
  distribution over the \<open>A\<close> legal actions of the set.
\<close>

type_synonym Policy = "string \<Rightarrow> real list option"

definition ActionProbabilities :: "Policy \<Rightarrow> string \<Rightarrow> nat \<Rightarrow> real list" where
  "ActionProbabilities policy key A =
     (case policy key of
        Some probs \<Rightarrow> probs
      | None \<Rightarrow> replicate A (1 / real A))"

text \<open>
  Modelled from the spec: the two policies derived from the table (section 3): the current
  policy by regret matching over the cumulative regret, the average policy by normalising
  the cumulative strategy.
\<close>

definition TableCurrentPolicy :: "InfostateTable \<Rightarrow> Policy" where
  "TableCurrentPolicy table =
     (\<lambda>key. case table key of
               None \<Rightarrow> None
             | Some node \<Rightarrow> Some (RegretMatching (cumulative_regret node)))"

definition TableAveragePolicy :: "InfostateTable \<Rightarrow> Policy" where
  "TableAveragePolicy table =
     (\<lambda>key. case table key of
               None \<Rightarrow> None
             | Some node \<Rightarrow> Some (NormalizeStrategy (cumulative_strategy node)))"

subsection \<open>The game tree and its traversal\<close>

text \<open>
  Modelled from the spec: the Game/State abstraction of section 6, as the finite tree
  that its operations unfold. A history is the subtree below it: a terminal node with the
  vector of returns, a chance node with its outcomes (probability and child), or a decision
  node with the acting player, the information-set key and one child per legal action, in
  the order of \<open>LegalActions\<close>.
\<close>

datatype Node =
    Terminal "real list"
  | Chance "(real \<times> Node) list"
  | Decision nat string "Node list"

text \<open>
  Modelled from the spec: the three flags of section 4.3.
\<close>

record Config =
  regret_matching_plus :: bool
  linear_averaging :: bool
  alternating_updates :: bool

text \<open>
  Modelled from the spec: what one pass over the tree is given (sections 4.2 and 4.3):
  the current policy profile, fixed for the whole pass ("under a fixed pair (current policy
  profile, reach probabilities)", "current-policy-at-start-of-iteration"); whether regrets
  are floored at 0 after an update; the weight of the cumulative-strategy update (the
  iteration index under linear averaging, otherwise 1); and the player whose accumulators
  the pass updates (\<open>None\<close>: every player's).
\<close>

record Pass =
  current_policy :: Policy
  floor_regrets :: bool
  averaging_weight :: real
  updated_player :: "nat option"

text \<open>
  Modelled from the spec: whether player \<open>p\<close> is "among the players being updated this
  pass" (step 5 of section 4.2).
\<close>

definition is_updated :: "Pass \<Rightarrow> nat \<Rightarrow> bool" where
  "is_updated pass p = (case updated_player pass of None \<Rightarrow> True | Some q \<Rightarrow> p = q)"

text \<open>
  Modelled from the spec: the "probability-weighted sum" of value vectors (section 4.2),
  entry by entry.
\<close>

definition add_vectors :: "real list \<Rightarrow> real list \<Rightarrow> real list" where
  "add_vectors v w = map2 (+) v w"

definition scale_vector :: "real \<Rightarrow> real list \<Rightarrow> real list" where
  "scale_vector q v = map (\<lambda>x. q * x) v"

text \<open>
  Modelled from the spec: step 4 of section 4.2, the node's value vector
  \<open>\<Sum>a. \<sigma>[a] * v_a\<close>, one entry per player.
\<close>

fun weighted_sum :: "nat \<Rightarrow> real list \<Rightarrow> real list list \<Rightarrow> real list" where
  "weighted_sum n (s # sigma) (v # vs) = add_vectors (scale_vector s v) (weighted_sum n sigma vs)"
| "weighted_sum n sigma vs = replicate n 0"

text \<open>
  Modelled from the spec: step 1 of section 4.2. The node of a key is looked up, or created
  with both accumulators at 0 (its strategy is then uniform); a node whose action count
  differs from the number of legal actions is a fatal error.
\<close>

definition lookup_or_create ::
  "InfostateTable \<Rightarrow> string \<Rightarrow> nat \<Rightarrow> error + (InfostateNode \<times> InfostateTable)" where
  "lookup_or_create table key A =
     (case table key of
        None \<Rightarrow>
          (let node = \<lparr>cumulative_regret = replicate A 0, cumulative_strategy = replicate A 0\<rparr>
           in Inr (node, table(key \<mapsto> node)))
      | Some node \<Rightarrow>
          if length (cumulative_regret node) = A then Inr (node, table) else Inl FatalError)"

text \<open>
  Modelled from the spec: step 5 of section 4.2 with the variants of section 4.3. For
  every action the counterfactual regret \<open>(v_a[p] - value[p])\<close> times the reach of all
  other players and of chance is added to the cumulative regret, which is then floored at 0
  under regret-matching-plus; and \<open>\<sigma>[a]\<close> times the player's own reach times the
  averaging weight is added to the cumulative strategy.
\<close>

definition update_node ::
  "Pass \<Rightarrow> nat \<Rightarrow> real list \<Rightarrow> real list list \<Rightarrow> real list \<Rightarrow> real list \<Rightarrow> real
     \<Rightarrow> InfostateNode \<Rightarrow> InfostateNode" where
  "update_node pass p sigma vs value reach chance_reach node =
     (let counterfactual_reach = prod_list (reach[p := 1]) * chance_reach;
          regrets = map2 (\<lambda>r v. r + (v ! p - value ! p) * counterfactual_reach)
                      (cumulative_regret node) vs;
          floored = (if floor_regrets pass then map (\<lambda>r. max r 0) regrets else regrets);
          strategy = map2 (\<lambda>c s. c + s * (reach ! p) * averaging_weight pass)
                       (cumulative_strategy node) sigma
      in \<lparr>cumulative_regret = floored, cumulative_strategy = strategy\<rparr>)"

text \<open>
  Modelled from the spec: the update is made to the node that the table holds for the key
  (the table "is mutated in place", section 5).
\<close>

definition update_table ::
  "Pass \<Rightarrow> nat \<Rightarrow> string \<Rightarrow> real list \<Rightarrow> real list list \<Rightarrow> real list \<Rightarrow> real list \<Rightarrow> real
     \<Rightarrow> InfostateTable \<Rightarrow> InfostateTable" where
  "update_table pass p key sigma vs value reach chance_reach table =
     (case table key of
        None \<Rightarrow> table
      | Some node \<Rightarrow>
          table(key \<mapsto> update_node pass p sigma vs value reach chance_reach node))"

text \<open>
  Modelled from the spec: the recursive traversal of section 4.2. \<open>reach\<close> holds one
  reach probability per player, \<open>chance_reach\<close> that of chance. The result is the value
  vector of the subtree and the table after the pass over it. The strategy \<open>\<sigma>[k]\<close> at
  a decision node is that of the policy the pass was given, which is regret matching over
  the cumulative regret as it stood when the pass began, and uniform for an information
  set created during the pass; the regrets that the pass itself adds do not change the
  strategy it plays. The contract violations of
  section 7 are fatal: a decision node without legal actions, a key whose node has another
  action count, chance probabilities that do not sum to 1, and an acting player or a vector
  of returns that does not fit the number of players.
\<close>

fun ComputeCounterfactualValues ::
    "Pass \<Rightarrow> Node \<Rightarrow> real list \<Rightarrow> real \<Rightarrow> InfostateTable
       \<Rightarrow> error + (real list \<times> InfostateTable)"
  and ChanceOutcomeValues ::
    "Pass \<Rightarrow> (real \<times> Node) list \<Rightarrow> real list \<Rightarrow> real \<Rightarrow> InfostateTable
       \<Rightarrow> error + (real list \<times> InfostateTable)"
  and ActionValues ::
    "Pass \<Rightarrow> nat \<Rightarrow> Node list \<Rightarrow> real list \<Rightarrow> real list \<Rightarrow> real \<Rightarrow> InfostateTable
       \<Rightarrow> error + (real list list \<times> InfostateTable)"
where
  "ComputeCounterfactualValues pass (Terminal returns) reach chance_reach table =
     (if length returns = length reach then Inr (returns, table) else Inl FatalError)"
| "ComputeCounterfactualValues pass (Chance outcomes) reach chance_reach table =
     (if sum_list (map fst outcomes) \<noteq> 1 then Inl FatalError
      else ChanceOutcomeValues pass outcomes reach chance_reach table)"
| "ComputeCounterfactualValues pass (Decision p key children) reach chance_reach table =
     (if children = [] \<or> \<not> p < length reach then Inl FatalError
      else
        (case lookup_or_create table key (length children) of
           Inl e \<Rightarrow> Inl e
         | Inr (node, table1) \<Rightarrow>
             (let sigma = ActionProbabilities (current_policy pass) key (length children) in
              (case ActionValues pass p children sigma reach chance_reach table1 of
                 Inl e \<Rightarrow> Inl e
               | Inr (vs, table2) \<Rightarrow>
                   (let value = weighted_sum (length reach) sigma vs in
                    Inr (value,
                         if is_updated pass p
                         then update_table pass p key sigma vs value reach chance_reach table2
                         else table2))))))"
| "ChanceOutcomeValues pass [] reach chance_reach table =
     Inr (replicate (length reach) 0, table)"
| "ChanceOutcomeValues pass ((q, child) # outcomes) reach chance_reach table =
     (case ComputeCounterfactualValues pass child reach (chance_reach * q) table of
        Inl e \<Rightarrow> Inl e
      | Inr (v, table1) \<Rightarrow>
          (case ChanceOutcomeValues pass outcomes reach chance_reach table1 of
             Inl e \<Rightarrow> Inl e
           | Inr (w, table2) \<Rightarrow> Inr (add_vectors (scale_vector q v) w, table2)))"
| "ActionValues pass p [] sigma reach chance_reach table = Inr ([], table)"
| "ActionValues pass p (child # children) [] reach chance_reach table = Inl FatalError"
| "ActionValues pass p (child # children) (s # sigma) reach chance_reach table =
     (case ComputeCounterfactualValues pass child (reach[p := reach ! p * s]) chance_reach table of
        Inl e \<Rightarrow> Inl e
      | Inr (v, table1) \<Rightarrow>
          (case ActionValues pass p children sigma reach chance_reach table1 of
             Inl e \<Rightarrow> Inl e
           | Inr (vs, table2) \<Rightarrow> Inr (v # vs, table2)))"

subsection \<open>The solver\<close>

text \<open>
  Modelled from the spec: the orchestrator of section 4.4. A solver owns the table and the
  iteration counter; \<open>root\<close> is the tree of the game and \<open>num_players\<close> its number of
  players.
\<close>

record CFRSolver =
  config :: Config
  root :: Node
  num_players :: nat
  info_states :: InfostateTable
  iteration :: nat

text \<open>
  Modelled from the spec: a fresh solver has an empty table, filled lazily on first visit
  (section 2), and has made no iteration.
\<close>

definition NewSolver :: "Config \<Rightarrow> Node \<Rightarrow> nat \<Rightarrow> CFRSolver" where
  "NewSolver cfg tree n =
     \<lparr>config = cfg, root = tree, num_players = n, info_states = Map.empty, iteration = 0\<rparr>"

text \<open>
  Modelled from the spec: one traversal from the root, where every reach probability is 1,
  under the flags of the solver at iteration \<open>t\<close> (sections 4.3 and 4.4). The policy of
  the pass is the current policy of the table on which the pass starts: the table at the
  start of the iteration, or, under alternating updates, the table that the pass of the
  previous player left.
\<close>

definition make_pass :: "Config \<Rightarrow> nat \<Rightarrow> nat option \<Rightarrow> InfostateTable \<Rightarrow> Pass" where
  "make_pass cfg t player table =
     \<lparr>current_policy = TableCurrentPolicy table,
      floor_regrets = regret_matching_plus cfg,
      averaging_weight = (if linear_averaging cfg then real t else 1),
      updated_player = player\<rparr>"

definition run_pass :: "CFRSolver \<Rightarrow> nat \<Rightarrow> nat option \<Rightarrow> InfostateTable \<Rightarrow> error + InfostateTable" where
  "run_pass solver t player table =
     (case ComputeCounterfactualValues (make_pass (config solver) t player table) (root solver)
             (replicate (num_players solver) 1) 1 table of
        Inl e \<Rightarrow> Inl e
      | Inr (value, table') \<Rightarrow> Inr table')"

text \<open>
  Modelled from the spec: under alternating updates one pass per player, in the order
  \<open>0 .. N - 1\<close>, each on the table the previous pass left.
\<close>

fun run_passes :: "CFRSolver \<Rightarrow> nat \<Rightarrow> nat list \<Rightarrow> InfostateTable \<Rightarrow> error + InfostateTable" where
  "run_passes solver t [] table = Inr table"
| "run_passes solver t (p # players) table =
     (case run_pass solver t (Some p) table of
        Inl e \<Rightarrow> Inl e
      | Inr table' \<Rightarrow> run_passes solver t players table')"

text \<open>
  Modelled from the spec: \<open>EvaluateAndUpdatePolicy\<close> advances the solver by one
  iteration; iterations are counted from 1.
\<close>

definition EvaluateAndUpdatePolicy :: "CFRSolver \<Rightarrow> error + CFRSolver" where
  "EvaluateAndUpdatePolicy solver =
     (let t = Suc (iteration solver) in
      (case (if alternating_updates (config solver)
             then run_passes solver t [0..<num_players solver] (info_states solver)
             else run_pass solver t None (info_states solver)) of
         Inl e \<Rightarrow> Inl e
       | Inr table' \<Rightarrow> Inr (solver\<lparr>info_states := table', iteration := t\<rparr>)))"

text \<open>
  Modelled from the spec: \<open>EvaluateAndUpdatePolicy\<close> "must be callable repeatedly";
  \<open>iterate n\<close> is \<open>n\<close> calls in a row, as the loops of cfr_test.cc make them.
\<close>

fun iterate :: "nat \<Rightarrow> CFRSolver \<Rightarrow> error + CFRSolver" where
  "iterate 0 solver = Inr solver"
| "iterate (Suc n) solver =
     (case EvaluateAndUpdatePolicy solver of
        Inl e \<Rightarrow> Inl e
      | Inr solver' \<Rightarrow> iterate n solver')"

text \<open>
  Modelled from the spec: \<open>CurrentPolicy\<close> and \<open>AveragePolicy\<close> of section 4.4.
\<close>

definition CurrentPolicy :: "CFRSolver \<Rightarrow> Policy" where
  "CurrentPolicy solver = TableCurrentPolicy (info_states solver)"

definition AveragePolicy :: "CFRSolver \<Rightarrow> Policy" where
  "AveragePolicy solver = TableAveragePolicy (info_states solver)"

text \<open>
  Modelled from the spec: property 1 of section 8, a probability distribution over \<open>A\<close>
  actions: one entry per action, none negative, summing to 1.
\<close>

definition is_distribution :: "nat \<Rightarrow> real list \<Rightarrow> bool" where
  "is_distribution A probs = (length probs = A \<and> list_all (\<lambda>x. 0 \<le> x) probs \<and> sum_list probs = 1)"

subsection \<open>The contract of a game\<close>

text \<open>
  Modelled from the spec: the information sets of a game, each with the number of legal
  actions of a decision node that carries its key (section 3).
\<close>

fun infosets :: "Node \<Rightarrow> (string \<times> nat) list"
  and infosets_outcomes :: "(real \<times> Node) list \<Rightarrow> (string \<times> nat) list"
  and infosets_children :: "Node list \<Rightarrow> (string \<times> nat) list"
where
  "infosets (Terminal returns) = []"
| "infosets (Chance outcomes) = infosets_outcomes outcomes"
| "infosets (Decision p key children) = (key, length children) # infosets_children children"
| "infosets_outcomes [] = []"
| "infosets_outcomes ((q, child) # outcomes) = infosets child @ infosets_outcomes outcomes"
| "infosets_children [] = []"
| "infosets_children (child # children) = infosets child @ infosets_children children"

text \<open>
  Modelled from the spec: what sections 3, 6 and 7 require of a game with \<open>n\<close> players.
  Every vector of returns has \<open>n\<close> entries, the probabilities of a chance node sum to 1,
  a decision node has a legal action and an acting player below \<open>n\<close>; and a key never
  stands for two different numbers of legal actions.
\<close>

fun well_formed :: "nat \<Rightarrow> Node \<Rightarrow> bool"
  and well_formed_outcomes :: "nat \<Rightarrow> (real \<times> Node) list \<Rightarrow> bool"
  and well_formed_children :: "nat \<Rightarrow> Node list \<Rightarrow> bool"
where
  "well_formed n (Terminal returns) = (length returns = n)"
| "well_formed n (Chance outcomes) =
     (sum_list (map fst outcomes) = 1 \<and> well_formed_outcomes n outcomes)"
| "well_formed n (Decision p key children) =
     (children \<noteq> [] \<and> p < n \<and> well_formed_children n children)"
| "well_formed_outcomes n [] = True"
| "well_formed_outcomes n ((q, child) # outcomes) =
     (well_formed n child \<and> well_formed_outcomes n outcomes)"
| "well_formed_children n [] = True"
| "well_formed_children n (child # children) =
     (well_formed n child \<and> well_formed_children n children)"

text \<open>
  Modelled from the spec: "information-set keys never collide across nodes with differing
  legal-action sets" (section 3).
\<close>

definition consistent_keys :: "(string \<times> nat) list \<Rightarrow> bool" where
  "consistent_keys sets = list_all (\<lambda>(k, a). list_all (\<lambda>(k', a'). k = k' \<longrightarrow> a = a') sets) sets"

text \<open>
  Modelled from the spec: a game that keeps the whole contract.
\<close>

definition game_ok :: "nat \<Rightarrow> Node \<Rightarrow> bool" where
  "game_ok n tree = (well_formed n tree \<and> consistent_keys (infosets tree))"

text \<open>
  Modelled from the spec: the invariant of the table (section 3): every node belongs to an information set of the game and
  has that set's number of actions in both accumulators, and no cumulative strategy is
  negative.
\<close>

definition table_ok :: "(string \<times> nat) list \<Rightarrow> InfostateTable \<Rightarrow> bool" where
  "table_ok sets table =
     (\<forall>key node. table key = Some node \<longrightarrow>
        (key, length (cumulative_regret node)) \<in> set sets \<and>
        length (cumulative_strategy node) = length (cumulative_regret node) \<and>
        (\<forall>x\<in>set (cumulative_strategy node). 0 \<le> x))"

text \<open>
  A small game as an example: chance deals one of two hands to player 0, who may
  stop or pass the move to player 1; player 1 does not see the hand.
\<close>

definition small_game :: Node where
  "small_game =
     Chance
       [(1 / 2, Decision 0 ''high'' [Terminal [1, - 1],
                  Decision 1 ''reply'' [Terminal [- 1, 1], Terminal [2, - 2]]]),
        (1 / 2, Decision 0 ''low'' [Terminal [0, 0],
                  Decision 1 ''reply'' [Terminal [1, - 1], Terminal [- 2, 2]]])]"

text \<open>The same game with the two chance outcomes listed in the other order.\<close>

definition small_game_swapped :: Node where
  "small_game_swapped =
     Chance
       [(1 / 2, Decision 0 ''low'' [Terminal [0, 0],
                  Decision 1 ''reply'' [Terminal [1, - 1], Terminal [- 2, 2]]]),
        (1 / 2, Decision 0 ''high'' [Terminal [1, - 1],
                  Decision 1 ''reply'' [Terminal [- 1, 1], Terminal [2, - 2]]])]"

definition vanilla :: Config where
  "vanilla = \<lparr>regret_matching_plus = False, linear_averaging = False, alternating_updates = False\<rparr>"

definition cfr_plus :: Config where
  "cfr_plus = \<lparr>regret_matching_plus = True, linear_averaging = True, alternating_updates = True\<rparr>"

section \<open>Gomoku: what the code computes\<close>

subsection \<open>Five in a line\<close>

lemma all_below_5: "(\<forall>k\<in>set [0..<5]. P k) = (P 0 \<and> P 1 \<and> P 2 \<and> P 3 \<and> P (4::nat))"
proof -
  have "set [0..<5] = {0, 1, 2, 3, 4::nat}" by auto
  then show ?thesis by simp
qed

lemma five_unfold:
  "row_five st s r c =
     (BoardAt st r c = s \<and> BoardAt st r (c + 1) = s \<and> BoardAt st r (c + 2) = s \<and>
      BoardAt st r (c + 3) = s \<and> BoardAt st r (c + 4) = s)"
  "column_five st s r c =
     (BoardAt st r c = s \<and> BoardAt st (r + 1) c = s \<and> BoardAt st (r + 2) c = s \<and>
      BoardAt st (r + 3) c = s \<and> BoardAt st (r + 4) c = s)"
  "diagonal_five st s r c =
     (BoardAt st r c = s \<and> BoardAt st (r + 1) (c + 1) = s \<and> BoardAt st (r + 2) (c + 2) = s \<and>
      BoardAt st (r + 3) (c + 3) = s \<and> BoardAt st (r + 4) (c + 4) = s)"
  "antidiagonal_five st s r c =
     (BoardAt st (r + 4) c = s \<and> BoardAt st (r + 3) (c + 1) = s \<and>
      BoardAt st (r + 2) (c + 2) = s \<and> BoardAt st (r + 1) (c + 3) = s \<and>
      BoardAt st r (c + 4) = s)"
  unfolding row_five_def column_five_def diagonal_five_def antidiagonal_five_def all_below_5
  by (simp_all add: numeral_eq_Suc)

text \<open>One step of the loop, and its end.\<close>

lemma HasFiveInner_loop_step:
  "i < 5 \<Longrightarrow> HasFiveInner_loop st r c s i =
     (row_five st s (r + i) c \<or> column_five st s r (c + i) \<or> HasFiveInner_loop st r c s (Suc i))"
  by (subst HasFiveInner_loop.simps) (auto simp: five_unfold)

lemma HasFiveInner_loop_end: "\<not> i < 5 \<Longrightarrow> \<not> HasFiveInner_loop st r c s i"
  by (subst HasFiveInner_loop.simps) simp

lemma HasFiveInner_loop_lines:
  "HasFiveInner_loop st r c s 0 =
     ((\<exists>i<5. row_five st s (r + i) c) \<or> (\<exists>i<5. column_five st s r (c + i)))"
proof -
  have ex5: "(\<exists>i<5. P i) = (P 0 \<or> P 1 \<or> P 2 \<or> P 3 \<or> P (4::nat))" for P
  proof -
    have "(\<exists>i<5. P i) = (\<not> (\<forall>i\<in>set [0..<5]. \<not> P i))" by auto
    then show ?thesis by (simp only: all_below_5) blast
  qed
  have "HasFiveInner_loop st r c s 0 =
      ((row_five st s (r + 0) c \<or> row_five st s (r + 1) c \<or> row_five st s (r + 2) c \<or>
        row_five st s (r + 3) c \<or> row_five st s (r + 4) c) \<or>
       (column_five st s r (c + 0) \<or> column_five st s r (c + 1) \<or> column_five st s r (c + 2) \<or>
        column_five st s r (c + 3) \<or> column_five st s r (c + 4)))"
    using HasFiveInner_loop_step [of 0 st r c s] HasFiveInner_loop_step [of 1 st r c s]
      HasFiveInner_loop_step [of 2 st r c s] HasFiveInner_loop_step [of 3 st r c s]
      HasFiveInner_loop_step [of 4 st r c s] HasFiveInner_loop_end [of 5 st r c s]
    by (simp add: numeral_eq_Suc) blast
  then show ?thesis by (simp only: ex5)
qed

text \<open>One 5 by 5 window holds five rows, five columns and the two diagonals.\<close>

lemma HasFiveInner_lines:
  "HasFiveInner st r c s =
     ((\<exists>i<5. row_five st s (r + i) c) \<or> (\<exists>i<5. column_five st s r (c + i)) \<or>
      diagonal_five st s r c \<or> antidiagonal_five st s r c)"
proof -
  have "HasFiveInner st r c s =
      (HasFiveInner_loop st r c s 0 \<or> diagonal_five st s r c \<or> antidiagonal_five st s r c)"
    by (simp add: HasFiveInner_def five_unfold)
  also have "HasFiveInner_loop st r c s 0 =
      ((\<exists>i<5. row_five st s (r + i) c) \<or> (\<exists>i<5. column_five st s r (c + i)))"
    by (rule HasFiveInner_loop_lines)
  finally show ?thesis by blast
qed

lemma HasFive_columns_windows:
  "HasFive_columns st s r c = (\<exists>j. c \<le> j \<and> j < 11 \<and> HasFiveInner st r j s)"
proof (induction st s r c rule: HasFive_columns.induct)
  case (1 st s r c)
  show ?case
  proof (cases "c \<le> kNumCols - 5")
    case False
    then have "\<not> c < 11" by (simp add: kNumCols_def)
    with False show ?thesis
      by (simp add: HasFive_columns.simps [of st s r c])
  next
    case le: True
    then have c: "c < 11" by (simp add: kNumCols_def)
    show ?thesis
    proof (cases "HasFiveInner st r c s")
      case True
      with le have "HasFive_columns st s r c"
        by (simp add: HasFive_columns.simps [of st s r c])
      moreover from True c have "\<exists>j. c \<le> j \<and> j < 11 \<and> HasFiveInner st r j s" by blast
      ultimately show ?thesis by simp
    next
      case False
      with le have "HasFive_columns st s r c = HasFive_columns st s r (Suc c)"
        by (simp add: HasFive_columns.simps [of st s r c])
      also from le False have "\<dots> = (\<exists>j. Suc c \<le> j \<and> j < 11 \<and> HasFiveInner st r j s)"
        by (rule "1.IH")
      also from False have "\<dots> = (\<exists>j. c \<le> j \<and> j < 11 \<and> HasFiveInner st r j s)"
        by (metis Suc_leD Suc_leI le_neq_implies_less)
      finally show ?thesis .
    qed
  qed
qed

lemma HasFive_rows_windows:
  "HasFive_rows st s r = (\<exists>i. r \<le> i \<and> i < 11 \<and> (\<exists>c<11. HasFiveInner st i c s))"
proof (induction st s r rule: HasFive_rows.induct)
  case (1 st s r)
  have cols: "HasFive_columns st s i 0 = (\<exists>c<11. HasFiveInner st i c s)" for i
    by (simp add: HasFive_columns_windows)
  show ?case
  proof (cases "r \<le> kNumRows - 5")
    case False
    then have "\<not> r < 11" by (simp add: kNumRows_def)
    with False show ?thesis
      by (simp add: HasFive_rows.simps [of st s r])
  next
    case le: True
    then have r: "r < 11" by (simp add: kNumRows_def)
    show ?thesis
    proof (cases "HasFive_columns st s r 0")
      case True
      with le have "HasFive_rows st s r"
        by (simp add: HasFive_rows.simps [of st s r])
      moreover from True r cols
      have "\<exists>i. r \<le> i \<and> i < 11 \<and> (\<exists>c<11. HasFiveInner st i c s)" by blast
      ultimately show ?thesis by simp
    next
      case False
      with le have "HasFive_rows st s r = HasFive_rows st s (Suc r)"
        by (simp add: HasFive_rows.simps [of st s r])
      also from le False
      have "\<dots> = (\<exists>i. Suc r \<le> i \<and> i < 11 \<and> (\<exists>c<11. HasFiveInner st i c s))"
        by (rule "1.IH")
      also from False cols
      have "\<dots> = (\<exists>i. r \<le> i \<and> i < 11 \<and> (\<exists>c<11. HasFiveInner st i c s))"
        by (metis Suc_leD Suc_leI le_neq_implies_less)
      finally show ?thesis .
    qed
  qed
qed

lemma five_in_line_bounds:
  "five_in_line st s =
     ((\<exists>r<15. \<exists>c<11. row_five st s r c) \<or>
      (\<exists>r<11. \<exists>c<15. column_five st s r c) \<or>
      (\<exists>r<11. \<exists>c<11. diagonal_five st s r c \<or> antidiagonal_five st s r c))"
  by (simp add: five_in_line_def kNumRows_def kNumCols_def Bex_def)

text \<open>Every row (or column) index of the board lies in a window that starts at 10 or before.\<close>

lemma window_of_line:
  assumes "r < (15::nat)"
  shows "\<exists>r0<11. \<exists>i<5. r = r0 + i"
proof (cases "r < 11")
  case True
  then have "r < 11 \<and> (0::nat) < 5 \<and> r = r + 0" by simp
  then show ?thesis by blast
next
  case False
  with assms have "(10::nat) < 11 \<and> r - 10 < 5 \<and> r = 10 + (r - 10)" by simp
  then show ?thesis by blast
qed

lemma windows_cover_lines:
  "(\<exists>r<11. \<exists>c<11. HasFiveInner st r c s) = five_in_line st s"
proof
  assume "\<exists>r<11. \<exists>c<11. HasFiveInner st r c s"
  then obtain r c where rc: "r < 11" "c < 11" and h: "HasFiveInner st r c s" by blast
  from h consider
      (row) i where "i < 5" "row_five st s (r + i) c"
    | (col) i where "i < 5" "column_five st s r (c + i)"
    | (diag) "diagonal_five st s r c"
    | (anti) "antidiagonal_five st s r c"
    unfolding HasFiveInner_lines by blast
  then show "five_in_line st s"
  proof cases
    case row
    with rc have "r + i < 15 \<and> c < 11 \<and> row_five st s (r + i) c" by simp
    then show ?thesis unfolding five_in_line_bounds by blast
  next
    case col
    with rc have "r < 11 \<and> c + i < 15 \<and> column_five st s r (c + i)" by simp
    then show ?thesis unfolding five_in_line_bounds by blast
  next
    case diag
    with rc show ?thesis unfolding five_in_line_bounds by blast
  next
    case anti
    with rc show ?thesis unfolding five_in_line_bounds by blast
  qed
next
  assume "five_in_line st s"
  then consider
      (row) r c where "r < 15" "c < 11" "row_five st s r c"
    | (col) r c where "r < 11" "c < 15" "column_five st s r c"
    | (diag) r c where "r < 11" "c < 11" "diagonal_five st s r c"
    | (anti) r c where "r < 11" "c < 11" "antidiagonal_five st s r c"
    unfolding five_in_line_bounds by blast
  then show "\<exists>r<11. \<exists>c<11. HasFiveInner st r c s"
  proof cases
    case row
    from window_of_line [OF row(1)] obtain r0 i where "r0 < 11" "i < 5" "r = r0 + i" by blast
    with row have "r0 < 11 \<and> c < 11 \<and> HasFiveInner st r0 c s"
      unfolding HasFiveInner_lines by blast
    then show ?thesis by blast
  next
    case col
    from window_of_line [OF col(2)] obtain c0 i where "c0 < 11" "i < 5" "c = c0 + i" by blast
    with col have "r < 11 \<and> c0 < 11 \<and> HasFiveInner st r c0 s"
      unfolding HasFiveInner_lines by blast
    then show ?thesis by blast
  next
    case diag
    then have "r < 11 \<and> c < 11 \<and> HasFiveInner st r c s"
      unfolding HasFiveInner_lines by blast
    then show ?thesis by blast
  next
    case anti
    then have "r < 11 \<and> c < 11 \<and> HasFiveInner st r c s"
      unfolding HasFiveInner_lines by blast
    then show ?thesis by blast
  qed
qed

lemma HasFive_five_in_line:
  "HasFive st 0 = Inr (five_in_line st kBlack)" "HasFive st 1 = Inr (five_in_line st kWhite)"
proof -
  have w: "HasFive_rows st s 0 = five_in_line st s" for s
    unfolding HasFive_rows_windows windows_cover_lines [symmetric] by simp
  show "HasFive st 0 = Inr (five_in_line st kBlack)"
    by (simp add: HasFive_def PlayerToState_def w)
  show "HasFive st 1 = Inr (five_in_line st kWhite)"
    by (simp add: HasFive_def PlayerToState_def w)
qed

lemma HasFive_other_player: "player \<noteq> 0 \<Longrightarrow> player \<noteq> 1 \<Longrightarrow> HasFive st player = Inl FatalError"
  by (simp add: HasFive_def PlayerToState_def)

lemma IsFull_loop_occupied:
  "IsFull_loop st point = (\<forall>p. point \<le> p \<and> p < kNumPoints \<longrightarrow> board st ! p \<noteq> kEmpty)"
proof (induction st point rule: IsFull_loop.induct)
  case (1 st point)
  show ?case
  proof (cases "point < kNumPoints")
    case False
    then show ?thesis
      by (auto simp: IsFull_loop.simps [of st point])
  next
    case less: True
    show ?thesis
    proof (cases "board st ! point = kEmpty")
      case True
      with less have "\<not> IsFull_loop st point"
        by (simp add: IsFull_loop.simps [of st point])
      moreover from True less
      have "\<not> (\<forall>p. point \<le> p \<and> p < kNumPoints \<longrightarrow> board st ! p \<noteq> kEmpty)" by blast
      ultimately show ?thesis by simp
    next
      case False
      with less have "IsFull_loop st point = IsFull_loop st (Suc point)"
        by (simp add: IsFull_loop.simps [of st point])
      also from less False
      have "\<dots> = (\<forall>p. Suc point \<le> p \<and> p < kNumPoints \<longrightarrow> board st ! p \<noteq> kEmpty)"
        by (rule "1.IH")
      also from False
      have "\<dots> = (\<forall>p. point \<le> p \<and> p < kNumPoints \<longrightarrow> board st ! p \<noteq> kEmpty)"
        by (metis Suc_leD Suc_leI le_neq_implies_less)
      finally show ?thesis .
    qed
  qed
qed

lemma IsFull_all_occupied: "IsFull st = all_occupied st"
  by (auto simp: IsFull_def IsFull_loop_occupied all_occupied_def)

lemma IsTerminal_lines:
  "IsTerminal st = Inr (five_in_line st kBlack \<or> five_in_line st kWhite \<or> all_occupied st)"
  by (simp add: IsTerminal_def HasFive_five_in_line IsFull_all_occupied)

lemma Returns_lines:
  "Returns st = Inr (if five_in_line st kBlack then [1, - 1]
                     else if five_in_line st kWhite then [- 1, 1] else [0, 0])"
  by (simp add: Returns_def HasFive_five_in_line)

lemma CurrentPlayer_lines:
  "CurrentPlayer st =
     Inr (if five_in_line st kBlack \<or> five_in_line st kWhite \<or> all_occupied st
          then kTerminalPlayerId else current_player st)"
  by (simp add: CurrentPlayer_def IsTerminal_lines)

subsection \<open>The loop of LegalActions\<close>

lemma LegalActions_loop_filter:
  "LegalActions_loop st point moves =
     moves @ map int (filter (\<lambda>p. board st ! p = kEmpty) [point..<kNumPoints])"
proof (induction st point moves rule: LegalActions_loop.induct)
  case (1 st point moves)
  show ?case
  proof (cases "point < kNumPoints")
    case True
    then have "[point..<kNumPoints] = point # [Suc point..<kNumPoints]"
      by (simp add: upt_conv_Cons)
    with True "1.IH" show ?thesis
      by (simp add: LegalActions_loop.simps [of st point moves])
  next
    case False
    then show ?thesis by (simp add: LegalActions_loop.simps [of st point moves])
  qed
qed

lemma sorted_map_int_filter:
  "sorted_wrt (<) (map int (filter P [i..<j]))"
proof -
  have "sorted_wrt (<) (filter P [i..<j])"
    by (rule sorted_wrt_filter) simp
  then show ?thesis
    by (simp add: sorted_wrt_map)
qed

lemma LegalActions_loop_sorted: "sorted_wrt (<) (LegalActions_loop st 0 [])"
  by (simp only: LegalActions_loop_filter append_Nil sorted_map_int_filter)

lemma LegalActions_loop_set:
  "set (LegalActions_loop st 0 []) = {int p | p. p < kNumPoints \<and> board st ! p = kEmpty}"
  by (auto simp only: LegalActions_loop_filter append_Nil set_map set_filter set_upt image_iff
      atLeastLessThan_iff mem_Collect_eq)

subsection \<open>Apply and undo\<close>

lemma state_ok_NewInitialState: "state_ok NewInitialState"
  by (simp add: state_ok_def board_ok_def NewInitialState_def)

lemma DoApplyAction_result:
  assumes ok: "state_ok st"
    and t: "IsTerminal st = Inr False"
    and m: "0 \<le> m" "nat m < kNumPoints" "board st ! nat m = kEmpty"
  shows "DoApplyAction m st =
           Inr (st\<lparr>board := (board st)[nat m := (if current_player st = 0 then kBlack else kWhite)],
                   current_player := 1 - current_player st\<rparr>)"
proof -
  from ok have len: "length (board st) = kNumPoints"
    and cp: "current_player st = 0 \<or> current_player st = 1"
    by (simp_all add: state_ok_def board_ok_def)
  from t have cur: "CurrentPlayer st = Inr (current_player st)"
    by (simp add: CurrentPlayer_def)
  from m len have inb: "\<not> (m < 0 \<or> int (length (board st)) \<le> m)" by auto
  from cp show ?thesis
  proof
    assume "current_player st = 0"
    with inb m cur show ?thesis
      by (simp add: DoApplyAction_def PlayerToState_def)
  next
    assume "current_player st = 1"
    with inb m cur show ?thesis
      by (simp add: DoApplyAction_def PlayerToState_def)
  qed
qed

lemma state_ok_ApplyAction:
  assumes "state_ok st" "ApplyAction m st = Inr st'"
  shows "state_ok st'"
proof -
  from assms(2) obtain st1 where d: "DoApplyAction m st = Inr st1"
    and st': "st' = st1\<lparr>history := history st1 @ [m]\<rparr>"
    by (auto simp: ApplyAction_def split: sum.splits)
  from d obtain ps where
    "st1 = st\<lparr>board := (board st)[nat m := ps], current_player := 1 - current_player st\<rparr>"
    by (auto simp: DoApplyAction_def split: if_splits sum.splits)
  with st' assms(1) show ?thesis
    by (auto simp: state_ok_def board_ok_def)
qed

lemma legal_move_facts:
  assumes "LegalActions st = Inr moves" "m \<in> set moves"
  shows "IsTerminal st = Inr False \<and> 0 \<le> m \<and> nat m < kNumPoints \<and> board st ! nat m = kEmpty"
proof -
  from assms have t: "IsTerminal st = Inr False"
    and mv: "moves = LegalActions_loop st 0 []"
    by (auto simp: LegalActions_def split: sum.splits if_splits)
  from assms(2) mv have "m \<in> {int p | p. p < kNumPoints \<and> board st ! p = kEmpty}"
    by (simp only: LegalActions_loop_set)
  then obtain p where "m = int p" "p < kNumPoints" "board st ! p = kEmpty" by blast
  with t show ?thesis by simp
qed

subsection \<open>The claims about Gomoku and matrix games\<close>

lemma line_first_point:
  "row_five st s r c \<Longrightarrow> BoardAt st r c = s"
  "column_five st s r c \<Longrightarrow> BoardAt st r c = s"
  "diagonal_five st s r c \<Longrightarrow> BoardAt st r c = s"
  "antidiagonal_five st s r c \<Longrightarrow> BoardAt st (r + 4) c = s"
  unfolding row_five_def column_five_def diagonal_five_def antidiagonal_five_def all_below_5
  by simp_all

lemma five_in_line_stone:
  assumes "five_in_line st s"
  shows "\<exists>p<kNumPoints. board st ! p = s"
proof -
  have pt: "\<exists>p<kNumPoints. board st ! p = s"
    if "r < 15" "c < 15" and b: "BoardAt st r c = s" for r c :: nat
  proof -
    from that have "r * 15 + c < 225" by simp
    with b have "r * kNumCols + c < kNumPoints \<and> board st ! (r * kNumCols + c) = s"
      by (simp add: BoardAt_def kNumPoints_def kNumRows_def kNumCols_def)
    then show ?thesis by blast
  qed
  from assms consider
      (row) r c where "r < 15" "c < 11" "row_five st s r c"
    | (col) r c where "r < 11" "c < 15" "column_five st s r c"
    | (diag) r c where "r < 11" "c < 11" "diagonal_five st s r c"
    | (anti) r c where "r < 11" "c < 11" "antidiagonal_five st s r c"
    unfolding five_in_line_bounds by blast
  then show ?thesis
  proof cases
    case row
    then have "r < 15" "c < 15" "BoardAt st r c = s"
      by (simp_all add: line_first_point)
    then show ?thesis by (rule pt)
  next
    case col
    then have "r < 15" "c < 15" "BoardAt st r c = s"
      by (simp_all add: line_first_point)
    then show ?thesis by (rule pt)
  next
    case diag
    then have "r < 15" "c < 15" "BoardAt st r c = s"
      by (simp_all add: line_first_point)
    then show ?thesis by (rule pt)
  next
    case anti
    then have "r + 4 < 15" "c < 15" "BoardAt st (r + 4) c = s"
      by (simp_all add: line_first_point)
    then show ?thesis by (rule pt)
  qed
qed

lemma initial_not_terminal: "IsTerminal NewInitialState = Inr False"
proof -
  have e: "\<And>p. p < kNumPoints \<Longrightarrow> board NewInitialState ! p = kEmpty"
    by (simp add: NewInitialState_def)
  have "\<not> five_in_line NewInitialState kBlack"
  proof
    assume "five_in_line NewInitialState kBlack"
    from five_in_line_stone [OF this] e show False by auto
  qed
  moreover have "\<not> five_in_line NewInitialState kWhite"
  proof
    assume "five_in_line NewInitialState kWhite"
    from five_in_line_stone [OF this] e show False by auto
  qed
  moreover have "\<not> all_occupied NewInitialState"
  proof
    assume "all_occupied NewInitialState"
    then have "board NewInitialState ! 0 \<noteq> kEmpty"
      by (simp add: all_occupied_def kNumPoints_def kNumRows_def kNumCols_def)
    then show False
      by (simp add: NewInitialState_def kNumPoints_def kNumRows_def kNumCols_def)
  qed
  ultimately show ?thesis by (simp add: IsTerminal_lines)
qed

lemma black_row_five: "five_in_line black_row_state kBlack"
proof -
  have "row_five black_row_state kBlack 0 0"
    by (simp add: row_five_def all_below_5 BoardAt_def black_row_state_def numeral_eq_Suc)
  then have "(0::nat) < 15 \<and> (0::nat) < 11 \<and> row_five black_row_state kBlack 0 0" by simp
  then show ?thesis unfolding five_in_line_bounds by blast
qed

text \<open>
  C7. LegalActions returns an ordered, stable sequence: the empty sequence at a terminal
  state, and otherwise exactly the indices of the empty points of the board, in strictly
  increasing order. The call never fails. As the result is a function of the state alone,
  two calls on equal states give the same sequence.
\<close>

theorem LegalActions_ordered_stable:
  "\<exists>t moves. IsTerminal st = Inr t \<and> LegalActions st = Inr moves \<and>
     (t \<longrightarrow> moves = []) \<and>
     (\<not> t \<longrightarrow> sorted_wrt (<) moves \<and>
              set moves = {int p | p. p < kNumPoints \<and> board st ! p = kEmpty})"
proof -
  obtain t where t: "IsTerminal st = Inr t" by (simp add: IsTerminal_lines)
  then have l: "LegalActions st = Inr (if t then [] else LegalActions_loop st 0 [])"
    by (simp add: LegalActions_def)
  show ?thesis
  proof (cases t)
    case True
    with t l have "IsTerminal st = Inr True" "LegalActions st = Inr []" by simp_all
    then show ?thesis by blast
  next
    case False
    with l have "LegalActions st = Inr (LegalActions_loop st 0 [])" by simp
    moreover note LegalActions_loop_sorted [of st] LegalActions_loop_set [of st]
    ultimately show ?thesis using t False by blast
  qed
qed

theorem LegalActions_ordered_stable_witness:
  "(\<exists>moves. LegalActions NewInitialState = Inr moves \<and> sorted_wrt (<) moves \<and>
      set moves = {int p | p. p < kNumPoints}) \<and>
   LegalActions black_row_state = Inr []"
proof -
  have e: "\<And>p. p < kNumPoints \<Longrightarrow> board NewInitialState ! p = kEmpty"
    by (simp add: NewInitialState_def)
  have b: "IsTerminal black_row_state = Inr True"
    using black_row_five by (simp add: IsTerminal_lines)
  from e have s: "{int p | p. p < kNumPoints \<and> board NewInitialState ! p = kEmpty}
      = {int p | p. p < kNumPoints}"
    by auto
  from LegalActions_ordered_stable [of NewInitialState] obtain t moves where
    "IsTerminal NewInitialState = Inr t" "LegalActions NewInitialState = Inr moves"
    "\<not> t \<longrightarrow> sorted_wrt (<) moves \<and>
       set moves = {int p | p. p < kNumPoints \<and> board NewInitialState ! p = kEmpty}"
    by blast
  with initial_not_terminal s
  have "\<exists>moves. LegalActions NewInitialState = Inr moves \<and> sorted_wrt (<) moves \<and>
      set moves = {int p | p. p < kNumPoints}"
    by simp
  moreover from LegalActions_ordered_stable [of black_row_state] b
  have "LegalActions black_row_state = Inr []"
    by auto
  ultimately show ?thesis by simp
qed

text \<open>
  C8. A Gomoku state is terminal exactly when black or white has five consecutive stones
  in a row, a column or a diagonal, or when every point of the board is occupied. Returns
  is (1, -1) when player 0 (black) has five, otherwise (-1, 1) when player 1 (white) has
  five, otherwise (0, 0), so the two utilities always add up to UtilitySum, which is 0.
\<close>

theorem IsTerminal_Returns_five_in_line:
  "IsTerminal st = Inr (five_in_line st kBlack \<or> five_in_line st kWhite \<or> all_occupied st) \<and>
   Returns st = Inr (if five_in_line st kBlack then [1, - 1]
                     else if five_in_line st kWhite then [- 1, 1] else [0, 0]) \<and>
   (\<exists>u0 u1. Returns st = Inr [u0, u1] \<and> u0 + u1 = UtilitySum)"
proof -
  have black: "HasFive st 0 = Inr (five_in_line st kBlack)"
    and white: "HasFive st 1 = Inr (five_in_line st kWhite)"
    by (rule HasFive_five_in_line)+
  have full: "IsFull st = all_occupied st"
    by (rule IsFull_all_occupied)
  from black white full
  have t: "IsTerminal st =
      Inr (five_in_line st kBlack \<or> five_in_line st kWhite \<or> all_occupied st)"
    by (simp add: IsTerminal_def)
  from black white
  have r: "Returns st = Inr (if five_in_line st kBlack then [1, - 1]
                             else if five_in_line st kWhite then [- 1, 1] else [0, 0])"
    by (simp add: Returns_def)
  have "\<exists>u0 u1. Returns st = Inr [u0, u1] \<and> u0 + u1 = UtilitySum"
  proof (cases "five_in_line st kBlack")
    case True
    with r have "Returns st = Inr [1, - 1] \<and> (1::real) + - 1 = UtilitySum"
      by (simp add: UtilitySum_def)
    then show ?thesis by blast
  next
    case False
    show ?thesis
    proof (cases "five_in_line st kWhite")
      case True
      with False r have "Returns st = Inr [- 1, 1] \<and> (- 1::real) + 1 = UtilitySum"
        by (simp add: UtilitySum_def)
      then show ?thesis by blast
    next
      case nowhite: False
      with False r have "Returns st = Inr [0, 0] \<and> (0::real) + 0 = UtilitySum"
        by (simp add: UtilitySum_def)
      then show ?thesis by blast
    qed
  qed
  with t r show ?thesis by simp
qed

theorem IsTerminal_Returns_five_in_line_witness:
  "IsTerminal black_row_state = Inr True \<and> Returns black_row_state = Inr [1, - 1] \<and>
   IsTerminal white_row_state = Inr True \<and> Returns white_row_state = Inr [- 1, 1] \<and>
   IsTerminal NewInitialState = Inr False \<and> Returns NewInitialState = Inr [0, 0]"
proof -
  have w: "five_in_line white_row_state kWhite" "\<not> five_in_line white_row_state kBlack"
    by code_simp+
  have i: "\<not> five_in_line NewInitialState kBlack" "\<not> five_in_line NewInitialState kWhite"
    "\<not> all_occupied NewInitialState"
    using initial_not_terminal by (simp_all add: IsTerminal_lines)
  from IsTerminal_Returns_five_in_line [of black_row_state] black_row_five
  have "IsTerminal black_row_state = Inr True \<and> Returns black_row_state = Inr [1, - 1]"
    by simp
  moreover from IsTerminal_Returns_five_in_line [of white_row_state] w
  have "IsTerminal white_row_state = Inr True \<and> Returns white_row_state = Inr [- 1, 1]"
    by simp
  moreover from IsTerminal_Returns_five_in_line [of NewInitialState] i
  have "IsTerminal NewInitialState = Inr False \<and> Returns NewInitialState = Inr [0, 0]"
    by simp
  ultimately show ?thesis by simp
qed

text \<open>
  C9. Undo inverts apply. Let \<open>st\<close> be a state of the game (\<open>state_ok\<close>) whose current
  player is \<open>p\<close>, and \<open>m\<close> one of its legal moves. Then applying \<open>m\<close> succeeds, and
  \<open>UndoAction p m\<close> on the result gives back \<open>st\<close> itself: the cell \<open>m\<close> is empty again,
  the player to move is \<open>p\<close> and the history is that of \<open>st\<close>.
\<close>

theorem UndoAction_inverts_ApplyAction:
  assumes "state_ok st" and "LegalActions st = Inr moves" and "m \<in> set moves"
    and "CurrentPlayer st = Inr p"
  shows "\<exists>st' st''. ApplyAction m st = Inr st' \<and> board st' ! nat m \<noteq> kEmpty \<and>
           UndoAction p m st' = Inr st'' \<and> st'' = st \<and>
           board st'' ! nat m = kEmpty \<and> current_player st'' = p \<and>
           history st'' = history st"
proof -
  from legal_move_facts [OF assms(2,3)]
  have t: "IsTerminal st = Inr False" and m: "0 \<le> m" "nat m < kNumPoints"
    "board st ! nat m = kEmpty"
    by simp_all
  from assms(1) have len: "length (board st) = kNumPoints"
    by (simp add: state_ok_def board_ok_def)
  from t assms(4) have p: "p = current_player st"
    by (simp add: CurrentPlayer_def)
  define ps where "ps = (if current_player st = 0 then kBlack else kWhite)"
  define st' where "st' = st\<lparr>board := (board st)[nat m := ps],
    current_player := 1 - current_player st, history := history st @ [m]\<rparr>"
  from DoApplyAction_result [OF assms(1) t m]
  have a: "ApplyAction m st = Inr st'"
    by (simp add: ApplyAction_def st'_def ps_def)
  from m len have filled: "board st' ! nat m \<noteq> kEmpty"
    by (simp add: st'_def ps_def)
  from m len have inb: "\<not> (m < 0 \<or> int (length (board st')) \<le> m)"
    by (auto simp: st'_def)
  from m have "(board st)[nat m := kEmpty] = board st"
    by (metis list_update_id)
  with inb p have u: "UndoAction p m st' = Inr st"
    by (simp add: UndoAction_def st'_def)
  from a filled u m p show ?thesis by simp
qed

theorem UndoAction_inverts_ApplyAction_witness:
  "state_ok NewInitialState \<and> CurrentPlayer NewInitialState = Inr 0 \<and>
   (\<exists>st'. ApplyAction 112 NewInitialState = Inr st' \<and> board st' ! 112 \<noteq> kEmpty \<and>
      UndoAction 0 112 st' = Inr NewInitialState)"
proof -
  have l: "LegalActions NewInitialState = Inr (LegalActions_loop NewInitialState 0 [])"
    by (simp add: LegalActions_def initial_not_terminal)
  have "(112::nat) < kNumPoints \<and> board NewInitialState ! 112 = kEmpty"
    by (simp add: NewInitialState_def kNumPoints_def kNumRows_def kNumCols_def)
  then have "int 112 \<in> {int p | p. p < kNumPoints \<and> board NewInitialState ! p = kEmpty}"
    by blast
  then have m: "112 \<in> set (LegalActions_loop NewInitialState 0 [])"
    by (simp only: LegalActions_loop_set) simp
  have "current_player NewInitialState = 0"
    by (simp add: NewInitialState_def)
  then have c: "CurrentPlayer NewInitialState = Inr 0"
    by (simp add: CurrentPlayer_def initial_not_terminal)
  from UndoAction_inverts_ApplyAction [OF state_ok_NewInitialState l m c] c
    state_ok_NewInitialState
  show ?thesis by auto
qed

text \<open>
  C10. Returns is total: on a Gomoku state it never fails, and on a state that is not
  terminal it is the all-zero vector, one 0 for each of the two players; on a matrix-game
  state that is not terminal (no joint move chosen yet) it is the all-zero vector too.
\<close>

theorem Returns_nonterminal_zero:
  "(\<exists>v. Returns st = Inr v) \<and>
   (IsTerminal st = Inr False \<longrightarrow> Returns st = Inr [0, 0]) \<and>
   (\<not> MatrixState_IsTerminal ms \<longrightarrow> MatrixState_Returns ms = Inr [0, 0])"
proof -
  have total: "\<exists>v. Returns st = Inr v"
    by (simp add: Returns_lines)
  have gomoku: "Returns st = Inr [0, 0]" if "IsTerminal st = Inr False"
  proof -
    from that have "\<not> five_in_line st kBlack" "\<not> five_in_line st kWhite"
      by (simp_all add: IsTerminal_lines)
    then show ?thesis by (simp add: Returns_lines)
  qed
  have matrix: "MatrixState_Returns ms = Inr [0, 0]" if "\<not> MatrixState_IsTerminal ms"
    using that by (simp add: MatrixState_Returns_def)
  from total gomoku matrix show ?thesis by blast
qed

theorem Returns_nonterminal_zero_witness:
  "IsTerminal NewInitialState = Inr False \<and> Returns NewInitialState = Inr [0, 0] \<and>
   \<not> MatrixState_IsTerminal pennies_state \<and> MatrixState_Returns pennies_state = Inr [0, 0]"
proof -
  have n: "\<not> MatrixState_IsTerminal pennies_state"
    by (simp add: MatrixState_IsTerminal_def pennies_state_def)
  from Returns_nonterminal_zero [of NewInitialState pennies_state] initial_not_terminal n
  show ?thesis by simp
qed

section \<open>The CFR engine: what holds\<close>

subsection \<open>Regret matching\<close>

lemma positive_part_nonneg: "0 \<le> sum_list (map (\<lambda>x. max x 0) (r :: real list))"
  by (rule sum_list_nonneg) auto

lemma positive_part_positive:
  "(0 < sum_list (map (\<lambda>x. max x 0) (r :: real list))) = (\<exists>x\<in>set r. 0 < x)"
proof (induction r)
  case Nil
  then show ?case by simp
next
  case (Cons a r)
  have n: "0 \<le> sum_list (map (\<lambda>x. max x 0) r)" by (rule positive_part_nonneg)
  show ?case
  proof (cases "0 < a")
    case True
    with n show ?thesis by (simp add: max_def add_pos_nonneg)
  next
    case False
    with Cons show ?thesis by (simp add: max_def)
  qed
qed

lemma length_RegretMatching: "length (RegretMatching r) = length r"
  by (simp add: RegretMatching_def Let_def)

lemma RegretMatching_proportional:
  assumes "0 < sum_list (map (\<lambda>x. max x 0) r)" "i < length r"
  shows "RegretMatching r ! i = max (r ! i) 0 / sum_list (map (\<lambda>x. max x 0) r)"
  using assms by (simp add: RegretMatching_def Let_def)

lemma RegretMatching_uniform:
  assumes "\<forall>x\<in>set r. x \<le> 0"
  shows "RegretMatching r = replicate (length r) (1 / real (length r))"
proof -
  from assms have "\<not> (\<exists>x\<in>set r. 0 < x)" by auto
  with positive_part_positive [of r] have "\<not> 0 < sum_list (map (\<lambda>x. max x 0) r)"
    by blast
  then show ?thesis
    unfolding RegretMatching_def Let_def by (simp only: if_False)
qed

lemma uniform_distribution: "0 < A \<Longrightarrow> is_distribution A (replicate A (1 / real A))"
  by (simp add: is_distribution_def list_all_iff sum_list_replicate)

lemma normalized_distribution:
  assumes "\<forall>x\<in>set xs. (0::real) \<le> x" "0 < sum_list xs"
  shows "is_distribution (length xs) (map (\<lambda>x. x / sum_list xs) xs)"
proof -
  have "sum_list (map (\<lambda>x. x / c) xs) = sum_list xs / c" for c
    by (induction xs) (simp_all add: add_divide_distrib)
  then have "sum_list (map (\<lambda>x. x / sum_list xs) xs) = sum_list xs / sum_list xs" .
  with assms show ?thesis
    by (simp add: is_distribution_def list_all_iff)
qed

lemma RegretMatching_distribution:
  assumes "0 < length r"
  shows "is_distribution (length r) (RegretMatching r)"
proof (cases "0 < sum_list (map (\<lambda>x. max x 0) r)")
  case True
  have "\<forall>x\<in>set (map (\<lambda>x. max x 0) r). (0::real) \<le> x" by auto
  from normalized_distribution [OF this True] True show ?thesis
    by (simp add: RegretMatching_def Let_def)
next
  case False
  with uniform_distribution [OF assms] show ?thesis
    by (simp add: RegretMatching_def Let_def)
qed

lemma NormalizeStrategy_distribution:
  assumes "0 < length cs" "\<forall>x\<in>set cs. 0 \<le> x"
  shows "is_distribution (length cs) (NormalizeStrategy cs)"
proof (cases "sum_list cs = 0")
  case True
  with uniform_distribution [OF assms(1)] show ?thesis
    by (simp add: NormalizeStrategy_def Let_def)
next
  case False
  moreover from assms(2) have "0 \<le> sum_list cs" by (simp add: sum_list_nonneg)
  ultimately have "0 < sum_list cs" by simp
  from normalized_distribution [OF assms(2) this] False show ?thesis
    by (simp add: NormalizeStrategy_def Let_def)
qed

text \<open>
  C4. Regret matching is a total function of the regret vector: the result has one entry
  per action; where the positive parts have a positive sum, entry \<open>i\<close> is
  \<open>max(r[i], 0) / sum(r+)\<close>; that sum is positive exactly when some regret is positive; and
  where no regret is positive the result is uniform, \<open>1/A\<close> for every action. So an
  information set of the table whose accumulated regrets are all non-positive has the
  uniform distribution as its CurrentPolicy, a value and not an error.
\<close>

theorem RegretMatching_total_uniform_fallback:
  assumes "1 \<le> length r"
  shows "length (RegretMatching r) = length r \<and>
     (0 < sum_list (map (\<lambda>x. max x 0) r) \<longrightarrow>
        (\<forall>i<length r. RegretMatching r ! i = max (r ! i) 0 / sum_list (map (\<lambda>x. max x 0) r))) \<and>
     ((0 < sum_list (map (\<lambda>x. max x 0) r)) = (\<exists>x\<in>set r. 0 < x)) \<and>
     ((\<forall>x\<in>set r. x \<le> 0) \<longrightarrow>
        (\<forall>i<length r. RegretMatching r ! i = 1 / real (length r)) \<and>
        (\<forall>solver key node. info_states solver key = Some node \<and> cumulative_regret node = r \<longrightarrow>
           ActionProbabilities (CurrentPolicy solver) key (length r)
             = replicate (length r) (1 / real (length r))))"
proof -
  have "ActionProbabilities (CurrentPolicy solver) key (length r)
          = replicate (length r) (1 / real (length r))"
    if "\<forall>x\<in>set r. x \<le> 0" "info_states solver key = Some node" "cumulative_regret node = r"
    for solver key node
    using that
    by (simp add: ActionProbabilities_def CurrentPolicy_def TableCurrentPolicy_def
        RegretMatching_uniform)
  then show ?thesis
    by (simp add: length_RegretMatching RegretMatching_proportional positive_part_positive
        RegretMatching_uniform)
qed

theorem RegretMatching_total_uniform_fallback_witness:
  "RegretMatching [- 1, 0, - 3] ! 0 = 1 / 3 \<and> RegretMatching [- 1, 0, - 3] ! 1 = 1 / 3 \<and>
   RegretMatching [- 1, 0, - 3] ! 2 = 1 / 3 \<and> length (RegretMatching [- 1, 0, - 3]) = 3 \<and>
   RegretMatching [2, - 1, 6] ! 0 = 1 / 4 \<and> RegretMatching [2, - 1, 6] ! 1 = 0 \<and>
   RegretMatching [2, - 1, 6] ! 2 = 3 / 4"
proof -
  have u: "\<forall>x\<in>set [- 1, 0, - 3 :: real]. x \<le> 0" by simp
  have a: "\<forall>i<3. RegretMatching [- 1, 0, - 3] ! i = 1 / 3"
    "length (RegretMatching [- 1, 0, - 3]) = 3"
    using RegretMatching_total_uniform_fallback [of "[- 1, 0, - 3]"] u by simp_all
  have b: "RegretMatching [2, - 1, 6] ! 0 = 1 / 4" "RegretMatching [2, - 1, 6] ! 1 = 0"
    "RegretMatching [2, - 1, 6] ! 2 = 3 / 4"
    by (simp_all add: RegretMatching_def)
  from a b show ?thesis by simp
qed

subsection \<open>The traversal keeps the table in order\<close>

lemma consistent_keysD:
  assumes "consistent_keys sets" "(k, a) \<in> set sets" "(k, a') \<in> set sets"
  shows "a = a'"
  using assms by (fastforce simp: consistent_keys_def list_all_iff)

lemma length_add_vectors [simp]: "length (add_vectors v w) = min (length v) (length w)"
  by (simp add: add_vectors_def)

lemma length_scale_vector [simp]: "length (scale_vector q v) = length v"
  by (simp add: scale_vector_def)

lemma length_weighted_sum:
  "length sigma = length vs \<Longrightarrow> \<forall>v\<in>set vs. length v = n \<Longrightarrow> length (weighted_sum n sigma vs) = n"
proof (induction n sigma vs rule: weighted_sum.induct)
  case (1 n s sigma v vs)
  then show ?case by simp
qed simp_all

lemma table_ok_empty: "table_ok sets Map.empty"
  by (simp add: table_ok_def)

lemma lookup_or_create_ok:
  assumes "consistent_keys sets" "table_ok sets table" "(key, A) \<in> set sets"
  shows "\<exists>node table1. lookup_or_create table key A = Inr (node, table1) \<and>
           length (cumulative_regret node) = A \<and> table_ok sets table1"
proof (cases "table key")
  case None
  define node where
    "node = \<lparr>cumulative_regret = replicate A (0::real), cumulative_strategy = replicate A (0::real)\<rparr>"
  from None have l: "lookup_or_create table key A = Inr (node, table(key \<mapsto> node))"
    by (simp add: lookup_or_create_def node_def Let_def)
  from assms(2,3) have "table_ok sets (table(key \<mapsto> node))"
    by (auto simp: table_ok_def node_def)
  with l show ?thesis by (simp add: node_def)
next
  case (Some node)
  with assms(2) have "(key, length (cumulative_regret node)) \<in> set sets"
    by (simp add: table_ok_def)
  from consistent_keysD [OF assms(1) this assms(3)]
  have "length (cumulative_regret node) = A" .
  with Some assms(2) show ?thesis
    by (simp add: lookup_or_create_def)
qed

lemma update_table_ok:
  assumes "consistent_keys sets" "table_ok sets table" "(key, A) \<in> set sets"
    and "length sigma = A" "length vs = A" "\<forall>s\<in>set sigma. 0 \<le> s"
    and "0 \<le> reach ! p" "0 \<le> averaging_weight pass"
  shows "table_ok sets (update_table pass p key sigma vs value reach chance_reach table)"
proof (cases "table key")
  case None
  with assms(2) show ?thesis by (simp add: update_table_def)
next
  case (Some node)
  define node' where "node' = update_node pass p sigma vs value reach chance_reach node"
  from Some assms(2) have k: "(key, length (cumulative_regret node)) \<in> set sets"
    and ls: "length (cumulative_strategy node) = length (cumulative_regret node)"
    and nn: "\<forall>x\<in>set (cumulative_strategy node). 0 \<le> x"
    by (simp_all add: table_ok_def)
  from consistent_keysD [OF assms(1) k assms(3)]
  have lr: "length (cumulative_regret node) = A" .
  from lr assms(5) have r': "length (cumulative_regret node') = A"
    by (simp add: node'_def update_node_def Let_def)
  from lr ls assms(4) have s': "length (cumulative_strategy node') = A"
    by (simp add: node'_def update_node_def Let_def)
  have n': "\<forall>x\<in>set (cumulative_strategy node'). 0 \<le> x"
  proof
    fix x
    assume "x \<in> set (cumulative_strategy node')"
    then obtain c s where cs: "(c, s) \<in> set (zip (cumulative_strategy node) sigma)"
      and x: "x = c + s * (reach ! p) * averaging_weight pass"
      by (auto simp: node'_def update_node_def Let_def)
    from cs have "c \<in> set (cumulative_strategy node)" "s \<in> set sigma"
      by (auto dest: set_zip_leftD set_zip_rightD)
    with nn assms(6) have "0 \<le> c" "0 \<le> s" by simp_all
    with assms(7,8) x show "0 \<le> x" by simp
  qed
  have "table_ok sets (table(key \<mapsto> node'))"
    unfolding table_ok_def
  proof (intro allI impI)
    fix k n
    assume h: "(table(key \<mapsto> node')) k = Some n"
    show "(k, length (cumulative_regret n)) \<in> set sets \<and>
        length (cumulative_strategy n) = length (cumulative_regret n) \<and>
        (\<forall>x\<in>set (cumulative_strategy n). 0 \<le> x)"
    proof (cases "k = key")
      case True
      with h have "n = node'" by simp
      with True r' s' n' assms(3) show ?thesis by simp
    next
      case False
      with h have "table k = Some n" by simp
      with assms(2) show ?thesis by (simp add: table_ok_def)
    qed
  qed
  with Some show ?thesis by (simp add: update_table_def node'_def)
qed

text \<open>
  Both policies of a table that is in order are probability distributions at every
  information set of the game, met before or not.
\<close>

lemma table_policies_distribution:
  assumes "consistent_keys sets" "table_ok sets table" "(key, A) \<in> set sets" "0 < A"
  shows "is_distribution A (ActionProbabilities (TableCurrentPolicy table) key A) \<and>
         is_distribution A (ActionProbabilities (TableAveragePolicy table) key A)"
proof (cases "table key")
  case None
  with uniform_distribution [OF assms(4)] show ?thesis
    by (simp add: ActionProbabilities_def TableCurrentPolicy_def TableAveragePolicy_def)
next
  case (Some node)
  with assms(2) have k: "(key, length (cumulative_regret node)) \<in> set sets"
    and ls: "length (cumulative_strategy node) = length (cumulative_regret node)"
    and nn: "\<forall>x\<in>set (cumulative_strategy node). 0 \<le> x"
    by (simp_all add: table_ok_def)
  from consistent_keysD [OF assms(1) k assms(3)]
  have lr: "length (cumulative_regret node) = A" .
  with assms(4) have "0 < length (cumulative_regret node)" by simp
  from RegretMatching_distribution [OF this] lr
  have c: "is_distribution A (RegretMatching (cumulative_regret node))" by simp
  from lr ls assms(4) have "0 < length (cumulative_strategy node)" by simp
  from NormalizeStrategy_distribution [OF this nn] lr ls
  have a: "is_distribution A (NormalizeStrategy (cumulative_strategy node))" by simp
  from Some c a show ?thesis
    by (simp add: ActionProbabilities_def TableCurrentPolicy_def TableAveragePolicy_def)
qed

text \<open>
  On a well-formed subtree whose information sets are among \<open>sets\<close>, a pass returns a value
  vector with one entry per player and leaves the table in order, when the policy of the
  pass is the current policy of a table that is in order. The three statements are proved
  together, along the structure of the tree.
\<close>

lemma traversal_ok:
  assumes ck: "consistent_keys sets" and w: "0 \<le> averaging_weight pass"
    and pol: "current_policy pass = TableCurrentPolicy table0" and t0: "table_ok sets table0"
  shows "well_formed n h \<Longrightarrow> set (infosets h) \<subseteq> set sets \<Longrightarrow> length reach = n \<Longrightarrow>
         \<forall>x\<in>set reach. 0 \<le> x \<Longrightarrow> table_ok sets table \<Longrightarrow>
         \<exists>v table'. ComputeCounterfactualValues pass h reach chance_reach table = Inr (v, table') \<and>
           length v = n \<and> table_ok sets table'"
    and "well_formed_outcomes n outcomes \<Longrightarrow> set (infosets_outcomes outcomes) \<subseteq> set sets \<Longrightarrow>
         length reach = n \<Longrightarrow> \<forall>x\<in>set reach. 0 \<le> x \<Longrightarrow> table_ok sets table \<Longrightarrow>
         \<exists>v table'. ChanceOutcomeValues pass outcomes reach chance_reach table = Inr (v, table') \<and>
           length v = n \<and> table_ok sets table'"
    and "well_formed_children n children \<Longrightarrow> set (infosets_children children) \<subseteq> set sets \<Longrightarrow>
         length sigma = length children \<Longrightarrow> \<forall>s\<in>set sigma. 0 \<le> s \<Longrightarrow> p < n \<Longrightarrow>
         length reach = n \<Longrightarrow> \<forall>x\<in>set reach. 0 \<le> x \<Longrightarrow> table_ok sets table \<Longrightarrow>
         \<exists>vs table'. ActionValues pass p children sigma reach chance_reach table = Inr (vs, table') \<and>
           length vs = length children \<and> (\<forall>v\<in>set vs. length v = n) \<and> table_ok sets table'"
proof (induction h and outcomes and children
    arbitrary: reach chance_reach table and reach chance_reach table
      and p sigma reach chance_reach table
    rule: infosets_infosets_outcomes_infosets_children.induct)
  case (1 returns)
  then show ?case by simp
next
  case (2 outcomes)
  from "2.prems" have "well_formed_outcomes n outcomes"
    "set (infosets_outcomes outcomes) \<subseteq> set sets" "sum_list (map fst outcomes) = 1"
    by simp_all
  with "2.IH" [OF this(1,2) "2.prems"(3,4,5), of chance_reach] show ?case by simp
next
  case (3 q key children)
  let ?A = "length children"
  from "3.prems" have wf: "well_formed_children n children" and ne: "children \<noteq> []"
    and q: "q < n" and sub: "set (infosets_children children) \<subseteq> set sets"
    and key: "(key, ?A) \<in> set sets"
    by simp_all
  from lookup_or_create_ok [OF ck "3.prems"(5) key] obtain node table1 where
    l: "lookup_or_create table key ?A = Inr (node, table1)"
    and ln: "length (cumulative_regret node) = ?A" and t1: "table_ok sets table1"
    by blast
  define sigma where "sigma = ActionProbabilities (current_policy pass) key ?A"
  from ne have pos: "0 < ?A" by simp
  from table_policies_distribution [OF ck t0 key pos] pol
  have d: "is_distribution ?A sigma" by (simp add: sigma_def)
  from d have ls: "length sigma = ?A" by (simp add: is_distribution_def)
  from d have sn: "\<forall>s\<in>set sigma. 0 \<le> s" by (simp add: is_distribution_def list_all_iff)
  from "3.IH" [OF wf sub ls sn q "3.prems"(3,4) t1, of chance_reach] obtain vs table2 where
    a: "ActionValues pass q children sigma reach chance_reach table1 = Inr (vs, table2)"
    and lv: "length vs = ?A" and vn: "\<forall>v\<in>set vs. length v = n" and t2: "table_ok sets table2"
    by blast
  define val where "val = weighted_sum (length reach) sigma vs"
  from ls lv vn "3.prems"(3) have lval: "length val = n"
    by (simp add: val_def length_weighted_sum)
  from "3.prems"(3,4) q have "0 \<le> reach ! q" by simp
  from update_table_ok [OF ck t2 key ls lv sn this w]
  have t3: "table_ok sets (update_table pass q key sigma vs val reach chance_reach table2)" .
  from ne q "3.prems"(3) l a have
    "ComputeCounterfactualValues pass (Decision q key children) reach chance_reach table =
       Inr (val, if is_updated pass q
                 then update_table pass q key sigma vs val reach chance_reach table2
                 else table2)"
    by (simp add: sigma_def val_def Let_def)
  with lval t2 t3 show ?case by simp
next
  case 4
  then show ?case by simp
next
  case (5 q child outcomes)
  from "5.prems" have wc: "well_formed n child" and wo: "well_formed_outcomes n outcomes"
    and sc: "set (infosets child) \<subseteq> set sets"
    and so: "set (infosets_outcomes outcomes) \<subseteq> set sets"
    by simp_all
  from "5.IH"(1) [OF wc sc "5.prems"(3,4,5), of "chance_reach * q"] obtain v table1 where
    c: "ComputeCounterfactualValues pass child reach (chance_reach * q) table = Inr (v, table1)"
    and lv: "length v = n" and t1: "table_ok sets table1"
    by blast
  from "5.IH"(2) [OF wo so "5.prems"(3,4) t1, of chance_reach] obtain w' table2 where
    o: "ChanceOutcomeValues pass outcomes reach chance_reach table1 = Inr (w', table2)"
    and lw: "length w' = n" and t2: "table_ok sets table2"
    by blast
  from c o lv lw t2 show ?case by simp
next
  case 6
  then show ?case by simp
next
  case (7 child children)
  from "7.prems"(3) obtain s sigma' where sg: "sigma = s # sigma'"
    and ls: "length sigma' = length children"
    by (cases sigma) simp_all
  from "7.prems" sg have wc: "well_formed n child" and wo: "well_formed_children n children"
    and sc: "set (infosets child) \<subseteq> set sets"
    and so: "set (infosets_children children) \<subseteq> set sets"
    and s0: "0 \<le> s" and sn: "\<forall>s\<in>set sigma'. 0 \<le> s"
    by simp_all
  let ?reach = "reach[p := reach ! p * s]"
  from "7.prems"(6) have lr: "length ?reach = n" by simp
  have rn: "\<forall>x\<in>set ?reach. 0 \<le> x"
  proof
    fix x
    assume "x \<in> set ?reach"
    then have "x \<in> insert (reach ! p * s) (set reach)"
      using set_update_subset_insert by fastforce
    moreover from "7.prems"(5,6,7) have "0 \<le> reach ! p" by simp
    ultimately show "0 \<le> x" using s0 "7.prems"(7) by auto
  qed
  from "7.IH"(1) [OF wc sc lr rn "7.prems"(8), of chance_reach] obtain v table1 where
    c: "ComputeCounterfactualValues pass child ?reach chance_reach table = Inr (v, table1)"
    and lv: "length v = n" and t1: "table_ok sets table1"
    by blast
  from "7.IH"(2) [OF wo so ls sn "7.prems"(5,6,7) t1, of chance_reach] obtain vs table2 where
    o: "ActionValues pass p children sigma' reach chance_reach table1 = Inr (vs, table2)"
    and lvs: "length vs = length children" and vn: "\<forall>v\<in>set vs. length v = n"
    and t2: "table_ok sets table2"
    by blast
  from c o sg lv lvs vn t2 show ?case by simp
qed

subsection \<open>Iterations of the solver\<close>

lemma averaging_weight_nonneg: "0 \<le> averaging_weight (make_pass cfg t player table)"
  by (simp add: make_pass_def)

lemma current_policy_make_pass:
  "current_policy (make_pass cfg t player table) = TableCurrentPolicy table"
  by (simp add: make_pass_def)

lemma run_pass_ok:
  assumes "game_ok (num_players solver) (root solver)"
    and "table_ok (infosets (root solver)) table"
  shows "\<exists>table'. run_pass solver t player table = Inr table' \<and>
           table_ok (infosets (root solver)) table'"
proof -
  from assms(1) have wf: "well_formed (num_players solver) (root solver)"
    and ck: "consistent_keys (infosets (root solver))"
    by (simp_all add: game_ok_def)
  have lr: "length (replicate (num_players solver) (1::real)) = num_players solver" by simp
  have rn: "\<forall>x\<in>set (replicate (num_players solver) (1::real)). 0 \<le> x" by simp
  from traversal_ok(1) [OF ck averaging_weight_nonneg current_policy_make_pass assms(2)
      wf subset_refl lr rn assms(2), of "config solver" t player 1]
  show ?thesis by (auto simp: run_pass_def)
qed

lemma run_passes_ok:
  assumes "game_ok (num_players solver) (root solver)"
  shows "table_ok (infosets (root solver)) table \<Longrightarrow>
         \<exists>table'. run_passes solver t players table = Inr table' \<and>
           table_ok (infosets (root solver)) table'"
proof (induction players arbitrary: table)
  case Nil
  then show ?case by simp
next
  case (Cons p players)
  from run_pass_ok [OF assms Cons.prems, of t "Some p"] obtain table1 where
    r: "run_pass solver t (Some p) table = Inr table1"
    and t1: "table_ok (infosets (root solver)) table1"
    by blast
  from Cons.IH [OF t1] r show ?case by simp
qed

lemma EvaluateAndUpdatePolicy_ok:
  assumes "game_ok (num_players solver) (root solver)"
    and "table_ok (infosets (root solver)) (info_states solver)"
  shows "\<exists>solver'. EvaluateAndUpdatePolicy solver = Inr solver' \<and>
           root solver' = root solver \<and> num_players solver' = num_players solver \<and>
           config solver' = config solver \<and> iteration solver' = Suc (iteration solver) \<and>
           table_ok (infosets (root solver)) (info_states solver')"
proof (cases "alternating_updates (config solver)")
  case True
  from run_passes_ok [OF assms, of "Suc (iteration solver)" "[0..<num_players solver]"]
  obtain table' where
    "run_passes solver (Suc (iteration solver)) [0..<num_players solver] (info_states solver)
       = Inr table'"
    "table_ok (infosets (root solver)) table'"
    by blast
  with True show ?thesis by (simp add: EvaluateAndUpdatePolicy_def Let_def)
next
  case False
  from run_pass_ok [OF assms, of "Suc (iteration solver)" None]
  obtain table' where
    "run_pass solver (Suc (iteration solver)) None (info_states solver) = Inr table'"
    "table_ok (infosets (root solver)) table'"
    by blast
  with False show ?thesis by (simp add: EvaluateAndUpdatePolicy_def Let_def)
qed

lemma iterate_ok:
  "game_ok (num_players solver) (root solver) \<Longrightarrow>
   table_ok (infosets (root solver)) (info_states solver) \<Longrightarrow>
   \<exists>solver'. iterate m solver = Inr solver' \<and>
     root solver' = root solver \<and> num_players solver' = num_players solver \<and>
     config solver' = config solver \<and> iteration solver' = iteration solver + m \<and>
     table_ok (infosets (root solver)) (info_states solver')"
proof (induction m arbitrary: solver)
  case 0
  then show ?case by simp
next
  case (Suc m)
  from EvaluateAndUpdatePolicy_ok [OF Suc.prems] obtain solver1 where
    e: "EvaluateAndUpdatePolicy solver = Inr solver1"
    and same: "root solver1 = root solver" "num_players solver1 = num_players solver"
      "config solver1 = config solver" "iteration solver1 = Suc (iteration solver)"
    and t1: "table_ok (infosets (root solver)) (info_states solver1)"
    by blast
  from Suc.prems(1) same have g1: "game_ok (num_players solver1) (root solver1)" by simp
  from t1 same have t1': "table_ok (infosets (root solver1)) (info_states solver1)" by simp
  from Suc.IH [OF g1 t1'] e same show ?case by simp
qed

subsection \<open>Policies are probability distributions\<close>

lemma infosets_positive:
  "well_formed n h \<Longrightarrow> \<forall>(k, a)\<in>set (infosets h). 0 < a"
  "well_formed_outcomes n outcomes \<Longrightarrow> \<forall>(k, a)\<in>set (infosets_outcomes outcomes). 0 < a"
  "well_formed_children n children \<Longrightarrow> \<forall>(k, a)\<in>set (infosets_children children). 0 < a"
  by (induction h and outcomes and children
      rule: infosets_infosets_outcomes_infosets_children.induct) auto

lemma small_game_ok: "game_ok 2 small_game"
  by (simp add: game_ok_def small_game_def consistent_keys_def)

text \<open>
  The first pass of a fresh vanilla solver plays the uniform profile at every history, also
  at the second history of \<open>''reply''\<close>, whose regrets the pass has updated by then: the
  value vector is that of the uniform profile, (1/4, -1/4), whatever the order in which
  the chance outcomes are listed.
\<close>

lemma first_pass_value:
  "map_sum id fst
     (ComputeCounterfactualValues (make_pass vanilla 1 None Map.empty) small_game [1, 1] 1
        Map.empty) = Inr [1 / 4, - 1 / 4]"
  by (simp add: small_game_def make_pass_def vanilla_def ActionProbabilities_def
      TableCurrentPolicy_def lookup_or_create_def Let_def is_updated_def update_table_def
      update_node_def add_vectors_def scale_vector_def)

lemma first_pass_value_swapped:
  "map_sum id fst
     (ComputeCounterfactualValues (make_pass vanilla 1 None Map.empty) small_game_swapped [1, 1] 1
        Map.empty) = Inr [1 / 4, - 1 / 4]"
  by (simp add: small_game_swapped_def make_pass_def vanilla_def ActionProbabilities_def
      TableCurrentPolicy_def lookup_or_create_def Let_def is_updated_def update_table_def
      update_node_def add_vectors_def scale_vector_def)

text \<open>
  C3. Let the game be well formed for \<open>n\<close> players (\<open>game_ok\<close>: the contract of sections
  3, 6 and 7). For every setting of the three flags and every number \<open>m\<close> of calls of
  EvaluateAndUpdatePolicy on a fresh solver, all calls return (none ends in a fatal
  error), and afterwards, at every information set of the game, ActionProbabilities of
  both CurrentPolicy and AveragePolicy has one probability per legal action, none of them
  negative, and they sum to 1. Probabilities are real numbers here, so the sum is exactly 1.
\<close>

theorem policies_are_distributions:
  assumes "game_ok n tree"
  shows "\<exists>solver. iterate m (NewSolver cfg tree n) = Inr solver \<and> iteration solver = m \<and>
           (\<forall>(key, A)\<in>set (infosets tree).
              is_distribution A (ActionProbabilities (CurrentPolicy solver) key A) \<and>
              is_distribution A (ActionProbabilities (AveragePolicy solver) key A))"
proof -
  let ?s0 = "NewSolver cfg tree n"
  have r0: "root ?s0 = tree" "num_players ?s0 = n" "iteration ?s0 = 0"
    "info_states ?s0 = Map.empty"
    by (simp_all add: NewSolver_def)
  from assms r0 have g0: "game_ok (num_players ?s0) (root ?s0)" by simp
  from r0 have t0: "table_ok (infosets (root ?s0)) (info_states ?s0)"
    by (simp add: table_ok_empty)
  from iterate_ok [OF g0 t0, of m] r0 obtain solver where
    it: "iterate m ?s0 = Inr solver" and i: "iteration solver = m"
    and t: "table_ok (infosets tree) (info_states solver)"
    by auto
  from assms have ck: "consistent_keys (infosets tree)" and wf: "well_formed n tree"
    by (simp_all add: game_ok_def)
  have "is_distribution A (ActionProbabilities (CurrentPolicy solver) key A) \<and>
        is_distribution A (ActionProbabilities (AveragePolicy solver) key A)"
    if "(key, A) \<in> set (infosets tree)" for key A
  proof -
    from infosets_positive(1) [OF wf] that have "0 < A" by auto
    from table_policies_distribution [OF ck t that this] show ?thesis
      by (simp add: CurrentPolicy_def AveragePolicy_def)
  qed
  with it i show ?thesis by blast
qed

theorem policies_are_distributions_witness:
  "game_ok 2 small_game \<and>
   (\<exists>solver. iterate 3 (NewSolver cfr_plus small_game 2) = Inr solver \<and>
      is_distribution 2 (ActionProbabilities (CurrentPolicy solver) ''reply'' 2) \<and>
      is_distribution 2 (ActionProbabilities (AveragePolicy solver) ''reply'' 2)) \<and>
   (\<exists>solver. iterate 0 (NewSolver vanilla small_game 2) = Inr solver \<and>
      is_distribution 2 (ActionProbabilities (CurrentPolicy solver) ''high'' 2) \<and>
      is_distribution 2 (ActionProbabilities (AveragePolicy solver) ''high'' 2))"
proof -
  have k: "(''reply'', 2) \<in> set (infosets small_game)" "(''high'', 2) \<in> set (infosets small_game)"
    by (simp_all add: small_game_def)
  from policies_are_distributions [OF small_game_ok, of 3 cfr_plus] k(1)
  have a: "\<exists>solver. iterate 3 (NewSolver cfr_plus small_game 2) = Inr solver \<and>
      is_distribution 2 (ActionProbabilities (CurrentPolicy solver) ''reply'' 2) \<and>
      is_distribution 2 (ActionProbabilities (AveragePolicy solver) ''reply'' 2)"
    by fastforce
  from policies_are_distributions [OF small_game_ok, of 0 vanilla] k(2)
  have b: "\<exists>solver. iterate 0 (NewSolver vanilla small_game 2) = Inr solver \<and>
      is_distribution 2 (ActionProbabilities (CurrentPolicy solver) ''high'' 2) \<and>
      is_distribution 2 (ActionProbabilities (AveragePolicy solver) ''high'' 2)"
    by fastforce
  from small_game_ok a b show ?thesis by blast
qed

end
